theory Spec2Isabelle
  imports Main "HOL-Library.Word"
begin

section \<open>PIDL wrapper types of Swish: the data model\<close>

text \<open>
  The development follows \<^verbatim>\<open>swish/shell_folder/Pidl.h\<close>: the two allocators, the
  \<^verbatim>\<open>raw_pidl\<close> algorithms (\<^verbatim>\<open>traits\<close>, \<^verbatim>\<open>skip\<close>, \<^verbatim>\<open>next\<close>, \<^verbatim>\<open>size\<close>, \<^verbatim>\<open>clone\<close>,
  \<^verbatim>\<open>combine\<close>), the owning wrapper \<^verbatim>\<open>basic_pidl\<close> and the joining operators.

  Memory is a list of blocks. A block is a list of bytes tagged with the pool that
  handed it out; a freed block is \<open>None\<close>. A pointer is \<open>NULL\<close>, a block number
  with a byte offset, or an address that lies in no block. Reading outside a live block is undefined behaviour in C++ and
  is the error \<open>access_violation\<close> here. Addresses and \<^verbatim>\<open>size_t\<close> values are natural
  numbers: a walk never leaves its block, so every sum of record lengths is bounded by
  the length of that block.
\<close>

type_synonym byte = "8 word"

text \<open>The three raw PIDL types of \<^verbatim>\<open>ShTypes.h\<close> under \<^verbatim>\<open>STRICT_TYPED_ITEMIDS\<close>.\<close>

datatype variant = ITEMID_CHILD | ITEMIDLIST_RELATIVE | ITEMIDLIST_ABSOLUTE

text \<open>An allocator type: the allocation scheme and the element type it is bound to.\<close>

datatype allocator = newdelete_alloc variant | cotaskmem_alloc variant

datatype pool = NewDeletePool | CoTaskMemPool

fun pool_of :: "allocator \<Rightarrow> pool" where
  "pool_of (newdelete_alloc T) = NewDeletePool"
| "pool_of (cotaskmem_alloc T) = CoTaskMemPool"

text \<open>\<^verbatim>\<open>Alloc::rebind<Other>::other\<close>\<close>

fun rebind :: "allocator \<Rightarrow> variant \<Rightarrow> allocator" where
  "rebind (newdelete_alloc T) Other = newdelete_alloc Other"
| "rebind (cotaskmem_alloc T) Other = cotaskmem_alloc Other"

text \<open>
  \<^verbatim>\<open>operator==\<close> and \<^verbatim>\<open>operator!=\<close> on allocators. The header declares one overload of
  each for two \<^verbatim>\<open>newdelete_alloc\<close> and one for two \<^verbatim>\<open>cotaskmem_alloc\<close>; there is no
  overload that takes one of each, so such a comparison has no value (\<open>None\<close>: the
  expression does not compile).
\<close>

fun alloc_eq :: "allocator \<Rightarrow> allocator \<Rightarrow> bool option" where
  "alloc_eq (newdelete_alloc T) (newdelete_alloc U) = Some True"
| "alloc_eq (cotaskmem_alloc T) (cotaskmem_alloc U) = Some True"
| "alloc_eq _ _ = None"

fun alloc_neq :: "allocator \<Rightarrow> allocator \<Rightarrow> bool option" where
  "alloc_neq (newdelete_alloc T) (newdelete_alloc U) = Some False"
| "alloc_neq (cotaskmem_alloc T) (cotaskmem_alloc U) = Some False"
| "alloc_neq _ _ = None"

datatype error = bad_alloc | assertion_failed | access_violation

text \<open>
  \<open>Address a\<close> is the non-null address \<open>a\<close> outside every block: what pointer
  arithmetic on a null pointer gives. Nothing can be read, written or freed there.
\<close>

datatype ptr = NULL | Ptr nat nat | Address nat

text \<open>
  The heap. \<open>free_bytes\<close> is what the allocators can still hand out; \<open>fill\<close> is the
  content of memory that has been allocated and not yet written. \<open>ndebug\<close> belongs to
  the build, not to the memory: it tells whether \<^verbatim>\<open>NDEBUG\<close> is defined, which compiles
  every \<^verbatim>\<open>assert\<close> out. So does \<open>nrvo\<close>: whether the compiler elides the copy of a
  local object that a function returns by value, which C++ allows and does not require.
\<close>

record heap =
  blocks :: "(pool \<times> byte list) option list"
  free_bytes :: nat
  fill :: byte
  ndebug :: bool
  nrvo :: bool

text \<open>\<^verbatim>\<open>assert(c)\<close> lets the program go on when it is compiled out or \<open>c\<close> holds.\<close>

definition assert_passes :: "heap \<Rightarrow> bool \<Rightarrow> bool" where
  "assert_passes h c = (ndebug h \<or> c)"

definition block_bytes :: "heap \<Rightarrow> nat \<Rightarrow> byte list option" where
  "block_bytes h b =
     (if b < length (blocks h) then map_option snd (blocks h ! b) else None)"

subsection \<open>Allocators\<close>

text \<open>
  \<^verbatim>\<open>Alloc::allocate(size)\<close>: both schemes throw \<^verbatim>\<open>std::bad_alloc\<close> when the memory cannot
  be had (\<^verbatim>\<open>new BYTE[size]\<close> by itself, \<^verbatim>\<open>cotaskmem_alloc\<close> on a null result of
  \<^verbatim>\<open>CoTaskMemAlloc\<close>) and leave the heap as it was. The new block gets the next block
  number.
\<close>

definition allocate :: "allocator \<Rightarrow> heap \<Rightarrow> nat \<Rightarrow> heap \<times> (error + ptr)" where
  "allocate A h n =
     (if free_bytes h < n then (h, Inl bad_alloc)
      else (h\<lparr>blocks := blocks h @ [Some (pool_of A, replicate n (fill h))],
               free_bytes := free_bytes h - n\<rparr>,
            Inr (Ptr (length (blocks h)) 0)))"

text \<open>
  \<^verbatim>\<open>Alloc::deallocate(mem)\<close>: nothing for a null pointer; otherwise the pointer has to be
  the start of a live block of the same pool.
\<close>

definition deallocate :: "allocator \<Rightarrow> heap \<Rightarrow> ptr \<Rightarrow> heap \<times> (error + unit)" where
  "deallocate A h mem =
     (case mem of
        NULL \<Rightarrow> (h, Inr ())
      | Address a \<Rightarrow> (h, Inl access_violation)
      | Ptr b off \<Rightarrow>
          (if b < length (blocks h) then
             (case blocks h ! b of
                None \<Rightarrow> (h, Inl access_violation)
              | Some (p, bs) \<Rightarrow>
                  if off = 0 \<and> p = pool_of A
                  then (h\<lparr>blocks := (blocks h)[b := None],
                           free_bytes := free_bytes h + length bs\<rparr>, Inr ())
                  else (h, Inl access_violation))
           else (h, Inl access_violation)))"

subsection \<open>Traits\<close>

text \<open>
  \<^verbatim>\<open>traits<T>::combine_type\<close> and \<^verbatim>\<open>traits<T>::is_appendable\<close>: the primary template
  serves \<^verbatim>\<open>ITEMIDLIST_RELATIVE\<close>, the two specialisations the other types.
\<close>

fun combine_type :: "variant \<Rightarrow> variant" where
  "combine_type ITEMID_CHILD = ITEMIDLIST_RELATIVE"
| "combine_type ITEMIDLIST_ABSOLUTE = ITEMIDLIST_ABSOLUTE"
| "combine_type T = T"

fun is_appendable :: "variant \<Rightarrow> bool" where
  "is_appendable ITEMID_CHILD = True"
| "is_appendable ITEMIDLIST_ABSOLUTE = False"
| "is_appendable T = True"

subsection \<open>Raw PIDL algorithms\<close>

text \<open>\<^verbatim>\<open>skip(pidl, offset)\<close>: the address \<open>offset\<close> bytes further on.\<close>

fun skip :: "ptr \<Rightarrow> nat \<Rightarrow> ptr" where
  "skip (Ptr b off) offset = Ptr b (off + offset)"
| "skip NULL offset = (if offset = 0 then NULL else Address offset)"
| "skip (Address a) offset = Address (a + offset)"

text \<open>The little-endian \<^verbatim>\<open>USHORT\<close> made of two bytes.\<close>

definition le16 :: "byte \<Rightarrow> byte \<Rightarrow> nat" where
  "le16 lo hi = unat lo + 256 * unat hi"

text \<open>The length field of the record at offset \<open>off\<close> of a byte list.\<close>

definition cb_at :: "byte list \<Rightarrow> nat \<Rightarrow> nat option" where
  "cb_at bs off =
     (if off + 1 < length bs then Some (le16 (bs ! off) (bs ! (off + 1))) else None)"

text \<open>\<^verbatim>\<open>pidl->mkid.cb\<close>\<close>

definition read_cb :: "heap \<Rightarrow> ptr \<Rightarrow> error + nat" where
  "read_cb h pidl =
     (case pidl of
        NULL \<Rightarrow> Inl access_violation
      | Address a \<Rightarrow> Inl access_violation
      | Ptr b off \<Rightarrow>
          (case block_bytes h b of
             None \<Rightarrow> Inl access_violation
           | Some bs \<Rightarrow>
               (case cb_at bs off of
                  None \<Rightarrow> Inl access_violation
                | Some cb \<Rightarrow> Inr cb)))"

text \<open>\<^verbatim>\<open>next(pidl)\<close>\<close>

definition next_pidl :: "heap \<Rightarrow> ptr \<Rightarrow> error + ptr" where
  "next_pidl h pidl =
     (case read_cb h pidl of Inl e \<Rightarrow> Inl e | Inr cb \<Rightarrow> Inr (skip pidl cb))"

text \<open>
  The loop of \<^verbatim>\<open>size\<close>:
  \<^verbatim>\<open>while (pidl->mkid.cb) { s += pidl->mkid.cb; pidl = next(pidl); }\<close>
\<close>

function size_loop :: "heap \<Rightarrow> ptr \<Rightarrow> nat \<Rightarrow> error + nat" where
  "size_loop h pidl s =
     (case read_cb h pidl of
        Inl e \<Rightarrow> Inl e
      | Inr cb \<Rightarrow>
          if cb \<noteq> 0 then
            (case next_pidl h pidl of
               Inl e \<Rightarrow> Inl e
             | Inr pidl' \<Rightarrow> size_loop h pidl' (s + cb))
          else Inr s)"
  by pat_completeness auto
termination
proof (relation "measure (\<lambda>(h, pidl, s).
          case pidl of NULL \<Rightarrow> 0 | Address a \<Rightarrow> 0
          | Ptr b off \<Rightarrow> (case block_bytes h b of None \<Rightarrow> 0 | Some bs \<Rightarrow> length bs - off))")
  show "wf (measure (\<lambda>(h, pidl, s).
          case pidl of NULL \<Rightarrow> 0 | Address a \<Rightarrow> 0
          | Ptr b off \<Rightarrow> (case block_bytes h b of None \<Rightarrow> 0 | Some bs \<Rightarrow> length bs - off)))"
    by simp
next
  fix h :: heap and pidl :: ptr and s :: nat and cb :: nat and pidl' :: ptr
  assume r: "read_cb h pidl = Inr cb" and nz: "cb \<noteq> 0"
    and n: "next_pidl h pidl = Inr pidl'"
  from r obtain b off bs where p: "pidl = Ptr b off" and bb: "block_bytes h b = Some bs"
    and c: "cb_at bs off = Some cb"
    by (auto simp: read_cb_def split: ptr.splits option.splits)
  from c have lt: "off + 1 < length bs"
    by (auto simp: cb_at_def split: if_splits)
  from n r p have p': "pidl' = Ptr b (off + cb)"
    by (simp add: next_pidl_def)
  show "((h, pidl', s + cb), (h, pidl, s)) \<in> measure (\<lambda>(h, pidl, s).
          case pidl of NULL \<Rightarrow> 0 | Address a \<Rightarrow> 0
          | Ptr b off \<Rightarrow> (case block_bytes h b of None \<Rightarrow> 0 | Some bs \<Rightarrow> length bs - off))"
    using p p' bb lt nz by simp
qed

declare size_loop.simps [simp del]

text \<open>\<^verbatim>\<open>size(pidl)\<close>: \<^verbatim>\<open>sizeof(pidl->mkid.cb)\<close> is 2.\<close>

definition size_pidl :: "heap \<Rightarrow> ptr \<Rightarrow> error + nat" where
  "size_pidl h pidl = (if pidl = NULL then Inr 0 else size_loop h pidl 2)"

text \<open>
  \<^verbatim>\<open>std::memcpy(dst, src, n)\<close>. Copying no bytes touches nothing, whatever the two
  pointers are (\<^verbatim>\<open>combine\<close> relies on it for a null operand); otherwise the \<open>n\<close>
  bytes have to lie inside a live block on both sides.
\<close>

definition memcpy :: "heap \<Rightarrow> ptr \<Rightarrow> ptr \<Rightarrow> nat \<Rightarrow> heap \<times> (error + unit)" where
  "memcpy h dst src n =
     (if n = 0 then (h, Inr ())
      else
        (case src of
           NULL \<Rightarrow> (h, Inl access_violation)
         | Address a \<Rightarrow> (h, Inl access_violation)
         | Ptr sb soff \<Rightarrow>
             (case block_bytes h sb of
                None \<Rightarrow> (h, Inl access_violation)
              | Some sbs \<Rightarrow>
                  if length sbs < soff + n then (h, Inl access_violation)
                  else
                    (case dst of
                       NULL \<Rightarrow> (h, Inl access_violation)
                     | Address a \<Rightarrow> (h, Inl access_violation)
                     | Ptr db doff \<Rightarrow>
                         if db < length (blocks h) then
                           (case blocks h ! db of
                              None \<Rightarrow> (h, Inl access_violation)
                            | Some (p, dbs) \<Rightarrow>
                                if length dbs < doff + n then (h, Inl access_violation)
                                else
                                  (h\<lparr>blocks := (blocks h)[db := Some (p,
                                        take doff dbs @ take n (drop soff sbs)
                                          @ drop (doff + n) dbs)]\<rparr>,
                                   Inr ()))
                         else (h, Inl access_violation)))))"

text \<open>\<^verbatim>\<open>clone<Alloc>(pidl)\<close>\<close>

definition clone :: "allocator \<Rightarrow> heap \<Rightarrow> ptr \<Rightarrow> heap \<times> (error + ptr)" where
  "clone A h pidl =
     (if pidl = NULL then (h, Inr NULL)
      else
        (case size_pidl h pidl of
           Inl e \<Rightarrow> (h, Inl e)
         | Inr len \<Rightarrow>
             (case allocate A h len of
                (h1, Inl e) \<Rightarrow> (h1, Inl e)
              | (h1, Inr mem) \<Rightarrow>
                  (case memcpy h1 mem pidl len of
                     (h2, Inl e) \<Rightarrow> (h2, Inl e)
                   | (h2, Inr u) \<Rightarrow> (h2, Inr mem)))))"

text \<open>
  The body of \<^verbatim>\<open>combine<Alloc, T, U>(lhs_pidl, rhs_pidl)\<close>. The memory comes from
  \<^verbatim>\<open>Alloc::rebind<traits<T>::combine_type>::other\<close>.
\<close>

definition combine :: "allocator \<Rightarrow> variant \<Rightarrow> heap \<Rightarrow> ptr \<Rightarrow> ptr \<Rightarrow> heap \<times> (error + ptr)" where
  "combine A T h lhs_pidl rhs_pidl =
     (if lhs_pidl = NULL \<and> rhs_pidl = NULL then (h, Inr NULL)
      else
        (case size_pidl h lhs_pidl of
           Inl e \<Rightarrow> (h, Inl e)
         | Inr lhs_len \<Rightarrow>
             (case size_pidl h rhs_pidl of
                Inl e \<Rightarrow> (h, Inl e)
              | Inr rhs_len \<Rightarrow>
                  if \<not> assert_passes h (2 \<le> lhs_len + rhs_len)
                  then (h, Inl assertion_failed)
                  else
                    (let len = (if lhs_len \<noteq> 0 \<and> rhs_len \<noteq> 0
                                then lhs_len + rhs_len - 2 else lhs_len + rhs_len)
                     in
                       (case allocate (rebind A (combine_type T)) h len of
                          (h1, Inl e) \<Rightarrow> (h1, Inl e)
                        | (h1, Inr mem) \<Rightarrow>
                            (case memcpy h1 mem lhs_pidl lhs_len of
                               (h2, Inl e) \<Rightarrow> (h2, Inl e)
                             | (h2, Inr u) \<Rightarrow>
                                 (case memcpy h2
                                        (skip mem (lhs_len - (if lhs_len \<noteq> 0 then 2 else 0)))
                                        rhs_pidl rhs_len of
                                    (h3, Inl e) \<Rightarrow> (h3, Inl e)
                                  | (h3, Inr u') \<Rightarrow> (h3, Inr mem))))))))"

text \<open>
  The template itself. \<^verbatim>\<open>boost::enable_if_c<traits<U>::is_appendable>\<close> removes it from
  the overload set when the right-hand type is not appendable, and there is no other
  overload: the call does not compile and no function exists to run. An instance
  consists of its return type \<^verbatim>\<open>traits<T>::combine_pidl_type\<close> and its body.
\<close>

definition combine_return_type :: "variant \<Rightarrow> variant \<Rightarrow> variant option" where
  "combine_return_type T U = (if is_appendable U then Some (combine_type T) else None)"

definition combine_template ::
  "allocator \<Rightarrow> variant \<Rightarrow> variant \<Rightarrow> (heap \<Rightarrow> ptr \<Rightarrow> ptr \<Rightarrow> heap \<times> (error + ptr)) option" where
  "combine_template A T U = (if is_appendable U then Some (combine A T) else None)"

subsection \<open>The owning wrapper\<close>

text \<open>
  An object of class \<^verbatim>\<open>basic_pidl<T, Alloc>\<close>. Its member \<^verbatim>\<open>m_allocator\<close> is an object
  of the empty class \<^verbatim>\<open>Alloc\<close> and holds no data: what it is, is the template argument,
  which the operations below take as \<open>A\<close>. Every member function that takes another
  wrapper takes a \<^verbatim>\<open>basic_pidl&\<close> of the same instance of the template, so one \<open>A\<close>
  serves both objects.
\<close>

record basic_pidl =
  m_pidl :: ptr

text \<open>\<^verbatim>\<open>basic_pidl()\<close>\<close>

definition basic_pidl_default :: basic_pidl where
  "basic_pidl_default = \<lparr>m_pidl = NULL\<rparr>"

text \<open>\<^verbatim>\<open>~basic_pidl()\<close>\<close>

definition destroy :: "allocator \<Rightarrow> heap \<Rightarrow> basic_pidl \<Rightarrow> heap \<times> (error + unit)" where
  "destroy A h this = deallocate A h (m_pidl this)"

text \<open>
  \<^verbatim>\<open>basic_pidl(const basic_pidl& pidl)\<close> and \<^verbatim>\<open>basic_pidl(const T* raw_pidl)\<close>: both
  clone the raw PIDL with \<^verbatim>\<open>Alloc\<close>.
\<close>

definition construct_raw :: "allocator \<Rightarrow> heap \<Rightarrow> ptr \<Rightarrow> heap \<times> (error + basic_pidl)" where
  "construct_raw A h raw_pidl =
     (case clone A h raw_pidl of
        (h1, Inl e) \<Rightarrow> (h1, Inl e)
      | (h1, Inr mem) \<Rightarrow> (h1, Inr \<lparr>m_pidl = mem\<rparr>))"

definition construct_copy :: "allocator \<Rightarrow> heap \<Rightarrow> basic_pidl \<Rightarrow> heap \<times> (error + basic_pidl)" where
  "construct_copy A h pidl = construct_raw A h (m_pidl pidl)"

text \<open>
  \<^verbatim>\<open>swap(basic_pidl& pidl)\<close> and the copy assignment \<^verbatim>\<open>operator=(const basic_pidl& pidl)\<close>
  call each other: the assignment swaps with its copy, and the second branch of
  \<^verbatim>\<open>swap\<close> assigns. The comparison \<^verbatim>\<open>m_allocator == pidl.m_allocator\<close> is between two
  objects of class \<^verbatim>\<open>Alloc\<close>. A local object is destroyed when its scope is left, by
  a \<^verbatim>\<open>return\<close> or by an exception. The results are the heap, the objects that were
  passed by reference, and the outcome. \<^verbatim>\<open>swap\<close> is declared \<^verbatim>\<open>throw()\<close>; an exception
  in its second branch is shown as the error it carries. The recursion ends because the
  comparison holds for every \<^verbatim>\<open>Alloc\<close> of the header, which is what the termination
  proof uses.
\<close>

function swap :: "allocator \<Rightarrow> heap \<Rightarrow> basic_pidl \<Rightarrow> basic_pidl
                    \<Rightarrow> heap \<times> basic_pidl \<times> basic_pidl \<times> (error + unit)"
  and assign :: "allocator \<Rightarrow> heap \<Rightarrow> basic_pidl \<Rightarrow> basic_pidl
                    \<Rightarrow> heap \<times> basic_pidl \<times> (error + unit)"
where
  "swap A h this pidl =
     (if alloc_eq A A = Some True
      then (h, this\<lparr>m_pidl := m_pidl pidl\<rparr>, pidl\<lparr>m_pidl := m_pidl this\<rparr>, Inr ())
      else
        (case construct_copy A h this of
           (h1, Inl e) \<Rightarrow> (h1, this, pidl, Inl e)
         | (h1, Inr temp) \<Rightarrow>
             (case assign A h1 this pidl of
                (h2, this', Inl e) \<Rightarrow> (fst (destroy A h2 temp), this', pidl, Inl e)
              | (h2, this', Inr u) \<Rightarrow>
                  (case assign A h2 pidl temp of
                     (h3, pidl', r) \<Rightarrow> (fst (destroy A h3 temp), this', pidl', r)))))"
| "assign A h this pidl =
     (case construct_copy A h pidl of
        (h1, Inl e) \<Rightarrow> (h1, this, Inl e)
      | (h1, Inr copy) \<Rightarrow>
          (case swap A h1 this copy of
             (h2, this', copy', Inl e) \<Rightarrow> (fst (destroy A h2 copy'), this', Inl e)
           | (h2, this', copy', Inr u) \<Rightarrow>
               (case destroy A h2 copy' of
                  (h3, Inl e) \<Rightarrow> (h3, this', Inl e)
                | (h3, Inr u') \<Rightarrow> (h3, this', Inr ()))))"
  by pat_completeness auto
termination
proof -
  have same: "alloc_eq A A = Some True" for A
    by (cases A) simp_all
  show ?thesis
    by (relation "measure (\<lambda>x. case x of Inl a \<Rightarrow> 0 | Inr b \<Rightarrow> Suc 0)")
       (auto simp: same)
qed

declare swap.simps [simp del] assign.simps [simp del]

text \<open>\<^verbatim>\<open>operator=(const T* raw_pidl)\<close>\<close>

definition assign_raw :: "allocator \<Rightarrow> heap \<Rightarrow> basic_pidl \<Rightarrow> ptr
                            \<Rightarrow> heap \<times> basic_pidl \<times> (error + unit)" where
  "assign_raw A h this raw_pidl =
     (case construct_raw A h raw_pidl of
        (h1, Inl e) \<Rightarrow> (h1, this, Inl e)
      | (h1, Inr copy) \<Rightarrow>
          (case swap A h1 this copy of
             (h2, this', copy', Inl e) \<Rightarrow> (fst (destroy A h2 copy'), this', Inl e)
           | (h2, this', copy', Inr u) \<Rightarrow>
               (case destroy A h2 copy' of
                  (h3, Inl e) \<Rightarrow> (h3, this', Inl e)
                | (h3, Inr u') \<Rightarrow> (h3, this', Inr ()))))"

text \<open>
  \<^verbatim>\<open>Alloc\<close> is a parameter of the class template, so a wrapper can be built over an
  allocator class that the header does not declare, with an \<^verbatim>\<open>operator==\<close> of its own.
  Every \<^verbatim>\<open>m_allocator\<close> is default-constructed: no constructor of \<^verbatim>\<open>basic_pidl\<close> takes an
  allocator, and neither \<^verbatim>\<open>swap\<close> nor the assignments copy one. So the comparison in
  \<^verbatim>\<open>swap\<close> is between two default-constructed objects of class \<^verbatim>\<open>Alloc\<close>, and its value
  belongs to the class: it is the parameter \<open>eq\<close> below, and \<open>A\<close> is the scheme the
  class allocates with. With \<open>eq\<close> false the recursion of \<^verbatim>\<open>swap\<close> and \<^verbatim>\<open>operator=\<close> need not
  end, so these versions count the nested calls down from \<open>n\<close> and give \<open>None\<close> when
  \<open>n\<close> calls do not suffice.
\<close>

fun swap_open :: "nat \<Rightarrow> bool \<Rightarrow> allocator \<Rightarrow> heap \<Rightarrow> basic_pidl \<Rightarrow> basic_pidl
                    \<Rightarrow> (heap \<times> basic_pidl \<times> basic_pidl \<times> (error + unit)) option"
  and assign_open :: "nat \<Rightarrow> bool \<Rightarrow> allocator \<Rightarrow> heap \<Rightarrow> basic_pidl \<Rightarrow> basic_pidl
                    \<Rightarrow> (heap \<times> basic_pidl \<times> (error + unit)) option"
where
  "swap_open 0 eq A h this pidl = None"
| "swap_open (Suc n) eq A h this pidl =
     (if eq
      then Some (h, this\<lparr>m_pidl := m_pidl pidl\<rparr>, pidl\<lparr>m_pidl := m_pidl this\<rparr>, Inr ())
      else
        (case construct_copy A h this of
           (h1, Inl e) \<Rightarrow> Some (h1, this, pidl, Inl e)
         | (h1, Inr temp) \<Rightarrow>
             (case assign_open n eq A h1 this pidl of
                None \<Rightarrow> None
              | Some (h2, this', Inl e) \<Rightarrow> Some (fst (destroy A h2 temp), this', pidl, Inl e)
              | Some (h2, this', Inr u) \<Rightarrow>
                  (case assign_open n eq A h2 pidl temp of
                     None \<Rightarrow> None
                   | Some (h3, pidl', r) \<Rightarrow> Some (fst (destroy A h3 temp), this', pidl', r)))))"
| "assign_open 0 eq A h this pidl = None"
| "assign_open (Suc n) eq A h this pidl =
     (case construct_copy A h pidl of
        (h1, Inl e) \<Rightarrow> Some (h1, this, Inl e)
      | (h1, Inr copy) \<Rightarrow>
          (case swap_open n eq A h1 this copy of
             None \<Rightarrow> None
           | Some (h2, this', copy', Inl e) \<Rightarrow> Some (fst (destroy A h2 copy'), this', Inl e)
           | Some (h2, this', copy', Inr u) \<Rightarrow>
               (case destroy A h2 copy' of
                  (h3, Inl e) \<Rightarrow> Some (h3, this', Inl e)
                | (h3, Inr u') \<Rightarrow> Some (h3, this', Inr ()))))"

text \<open>\<^verbatim>\<open>get()\<close>, \<^verbatim>\<open>operator!()\<close>, \<^verbatim>\<open>size()\<close> and \<^verbatim>\<open>empty()\<close>\<close>

definition get :: "basic_pidl \<Rightarrow> ptr" where
  "get this = m_pidl this"

definition is_null :: "basic_pidl \<Rightarrow> bool" where
  "is_null this = (m_pidl this = NULL)"

definition size_of :: "heap \<Rightarrow> basic_pidl \<Rightarrow> error + nat" where
  "size_of h this = size_pidl h (m_pidl this)"

definition empty_pidl :: "heap \<Rightarrow> basic_pidl \<Rightarrow> error + bool" where
  "empty_pidl h this =
     (if m_pidl this = NULL then Inr True
      else (case read_cb h (m_pidl this) of Inl e \<Rightarrow> Inl e | Inr cb \<Rightarrow> Inr (cb = 0)))"

text \<open>\<^verbatim>\<open>out()\<close>: the slot it returns is the member \<^verbatim>\<open>m_pidl\<close> of the object returned here.\<close>

definition out :: "allocator \<Rightarrow> heap \<Rightarrow> basic_pidl \<Rightarrow> heap \<times> basic_pidl \<times> (error + unit)" where
  "out A h this =
     (case deallocate A h (m_pidl this) of
        (h1, Inl e) \<Rightarrow> (h1, this, Inl e)
      | (h1, Inr u) \<Rightarrow> (h1, this\<lparr>m_pidl := NULL\<rparr>, Inr ()))"

text \<open>\<^verbatim>\<open>attach(T* raw_pidl)\<close>\<close>

definition attach :: "allocator \<Rightarrow> heap \<Rightarrow> basic_pidl \<Rightarrow> ptr
                        \<Rightarrow> heap \<times> basic_pidl \<times> (error + unit)" where
  "attach A h this raw_pidl =
     (if \<not> assert_passes h (m_pidl this \<noteq> raw_pidl) then (h, this, Inl assertion_failed)
      else
        (case deallocate A h (m_pidl this) of
           (h1, Inl e) \<Rightarrow> (h1, this, Inl e)
         | (h1, Inr u) \<Rightarrow> (h1, this\<lparr>m_pidl := raw_pidl\<rparr>, Inr ())))"

subsection \<open>Joining\<close>

text \<open>
  \<^verbatim>\<open>operator+(const T& lhs_pidl, const U& rhs_pidl)\<close> for a left-hand wrapper of class
  \<^verbatim>\<open>basic_pidl<T, A>\<close>. The result is of class \<^verbatim>\<open>T::join_pidl\<close>, a wrapper of
  \<^verbatim>\<open>traits<T>::combine_type\<close> with the allocator \<^verbatim>\<open>A::rebind<join_type>::other\<close>.
\<close>

definition join_type :: "variant \<Rightarrow> variant" where
  "join_type T = combine_type T"

definition join_allocator :: "allocator \<Rightarrow> variant \<Rightarrow> allocator" where
  "join_allocator A T = rebind A (join_type T)"

text \<open>
  The two statements before the \<^verbatim>\<open>return\<close>: the local \<^verbatim>\<open>pidl\<close> is default-constructed
  and attached to what \<^verbatim>\<open>combine\<close> returns. The result is that local.
\<close>

definition operator_plus_local :: "allocator \<Rightarrow> variant \<Rightarrow> heap \<Rightarrow> basic_pidl \<Rightarrow> basic_pidl
                                     \<Rightarrow> heap \<times> (error + basic_pidl)" where
  "operator_plus_local A T h lhs_pidl rhs_pidl =
     (case combine (join_allocator A T) T h (get lhs_pidl) (get rhs_pidl) of
        (h1, Inl e) \<Rightarrow> (h1, Inl e)
      | (h1, Inr raw) \<Rightarrow>
          (case attach (join_allocator A T) h1 basic_pidl_default raw of
             (h2, pidl, Inl e) \<Rightarrow> (fst (destroy (join_allocator A T) h2 pidl), Inl e)
           | (h2, pidl, Inr u) \<Rightarrow> (h2, Inr pidl)))"

text \<open>
  \<^verbatim>\<open>return pidl;\<close> of a local wrapper of a class with allocator \<open>A\<close>. When the copy is
  elided the local is the object returned. Otherwise the returned object is
  copy-constructed from the local, which clones its buffer, and then the local is
  destroyed, which frees the buffer it held; when the clone throws, the local is
  destroyed as well.
\<close>

definition return_local :: "allocator \<Rightarrow> heap \<Rightarrow> basic_pidl \<Rightarrow> heap \<times> (error + basic_pidl)" where
  "return_local A h pidl =
     (if nrvo h then (h, Inr pidl)
      else
        (case construct_copy A h pidl of
           (h1, Inl e) \<Rightarrow> (fst (destroy A h1 pidl), Inl e)
         | (h1, Inr returned) \<Rightarrow> (fst (destroy A h1 pidl), Inr returned)))"

definition operator_plus :: "allocator \<Rightarrow> variant \<Rightarrow> heap \<Rightarrow> basic_pidl \<Rightarrow> basic_pidl
                               \<Rightarrow> heap \<times> (error + basic_pidl)" where
  "operator_plus A T h lhs_pidl rhs_pidl =
     (case operator_plus_local A T h lhs_pidl rhs_pidl of
        (h1, Inl e) \<Rightarrow> (h1, Inl e)
      | (h1, Inr pidl) \<Rightarrow> return_local (join_allocator A T) h1 pidl)"

text \<open>
  The operator as a template: its body calls \<^verbatim>\<open>combine\<close> with the right-hand
  wrapper's raw type \<open>U\<close>, so it exists exactly when that instance of \<^verbatim>\<open>combine\<close> does.
\<close>

definition operator_plus_template ::
  "allocator \<Rightarrow> variant \<Rightarrow> variant
     \<Rightarrow> (heap \<Rightarrow> basic_pidl \<Rightarrow> basic_pidl \<Rightarrow> heap \<times> (error + basic_pidl)) option" where
  "operator_plus_template A T U =
     (case combine_template (join_allocator A T) T U of
        None \<Rightarrow> None
      | Some c \<Rightarrow> Some (operator_plus A T))"

subsection \<open>StorageMedium\<close>

text \<open>
  \<^verbatim>\<open>swish/shell_folder/data_object/StorageMedium.hpp\<close>. A \<^verbatim>\<open>STGMEDIUM\<close> is its type
  tag, the handle in its union and the releasing interface pointer. The body of
  \<^verbatim>\<open>StorageMedium& operator=(StorageMedium medium)\<close> is the one statement
  \<^verbatim>\<open>std::swap(m_medium, medium.m_medium);\<close> and then ends: the result is the object, the
  parameter, and the value returned, which is \<open>None\<close> for a body that reaches its end
  without a \<^verbatim>\<open>return\<close>.
\<close>

record STGMEDIUM =
  tymed :: nat
  handle :: nat
  pUnkForRelease :: nat

record StorageMedium =
  m_medium :: STGMEDIUM

definition StorageMedium_assign ::
  "StorageMedium \<Rightarrow> StorageMedium \<Rightarrow> StorageMedium \<times> StorageMedium \<times> StorageMedium option" where
  "StorageMedium_assign this medium =
     (this\<lparr>m_medium := m_medium medium\<rparr>, medium\<lparr>m_medium := m_medium this\<rparr>, None)"

definition StorageMedium_empty :: "StorageMedium \<Rightarrow> bool" where
  "StorageMedium_empty this = (tymed (m_medium this) = 0)"

subsection \<open>The buffer layout of the specification\<close>

text \<open>
  The data model of the specification: a buffer is a sequence of records, each a
  two-byte little-endian length field that counts itself, followed by the payload, and
  the sequence ends with a record whose length field is 0. \<open>spec_records bs off\<close> walks
  the records that start at offset \<open>off\<close> and returns, for each, its length field and
  its payload; it is \<open>None\<close> when the walk leaves the bytes before it meets a terminator.
\<close>

function spec_records :: "byte list \<Rightarrow> nat \<Rightarrow> (nat \<times> byte list) list option" where
  "spec_records bs off =
     (case cb_at bs off of
        None \<Rightarrow> None
      | Some cb \<Rightarrow>
          if cb = 0 then Some [(0, [])]
          else
            (case spec_records bs (off + cb) of
               None \<Rightarrow> None
             | Some its \<Rightarrow> Some ((cb, take (cb - 2) (drop (off + 2) bs)) # its)))"
  by pat_completeness auto
termination
  by (relation "measure (\<lambda>(bs, off). length bs - off)")
     (auto simp: cb_at_def split: if_splits)

declare spec_records.simps [simp del]

text \<open>A record is well formed when its length field covers at least the field itself.\<close>

definition valid_records :: "(nat \<times> byte list) list \<Rightarrow> bool" where
  "valid_records its = list_all (\<lambda>(cb, abID). cb = 0 \<or> 2 \<le> cb) its"

text \<open>
  What it is for a pointer to be a block that \<open>h'\<close> has and \<open>h\<close> did not have, with
  every block of \<open>h\<close> left as it was.
\<close>

definition fresh_in :: "heap \<Rightarrow> heap \<Rightarrow> ptr \<Rightarrow> bool" where
  "fresh_in h h' res =
     (res = Ptr (length (blocks h)) 0
      \<and> block_bytes h (length (blocks h)) = None
      \<and> block_bytes h' (length (blocks h)) \<noteq> None
      \<and> take (length (blocks h)) (blocks h') = blocks h)"

text \<open>
  The same for a pointer to any block that \<open>h\<close> did not have, not only the first one
  after those of \<open>h\<close>.
\<close>

definition new_block :: "heap \<Rightarrow> heap \<Rightarrow> ptr \<Rightarrow> bool" where
  "new_block h h' res =
     (case res of
        NULL \<Rightarrow> False
      | Address a \<Rightarrow> False
      | Ptr b off \<Rightarrow>
          off = 0 \<and> length (blocks h) \<le> b \<and> block_bytes h' b \<noteq> None
          \<and> take (length (blocks h)) (blocks h') = blocks h)"

subsection \<open>Example heaps\<close>

definition heap0 :: heap where
  "heap0 = \<lparr>blocks = [Some (NewDeletePool, [4, 0, 7, 8, 0, 0, 9])],
            free_bytes = 16, fill = 170, ndebug = False, nrvo = False\<rparr>"

definition heap1 :: heap where
  "heap1 = \<lparr>blocks = [Some (NewDeletePool, [4, 0, 7, 8, 0, 0, 9]),
                      Some (CoTaskMemPool, [3, 0, 5, 0, 0]),
                      Some (CoTaskMemPool, [0, 0])],
            free_bytes = 20, fill = 170, ndebug = False, nrvo = False\<rparr>"

definition heap2 :: heap where
  "heap2 = \<lparr>blocks = [Some (CoTaskMemPool, [4, 0, 7, 8, 0, 0]),
                      Some (CoTaskMemPool, [3, 0, 5, 0, 0])],
            free_bytes = 0, fill = 170, ndebug = True, nrvo = True\<rparr>"

definition heap3 :: heap where
  "heap3 = \<lparr>blocks = [Some (CoTaskMemPool, [4, 0, 7, 8, 0, 0]),
                      Some (CoTaskMemPool, [3, 0, 5, 0, 0])],
            free_bytes = 12, fill = 170, ndebug = True, nrvo = True\<rparr>"

section \<open>Properties\<close>

subsection \<open>The record walk\<close>

lemma spec_records_unfold_zero:
  "cb_at bs off = Some 0 \<Longrightarrow> spec_records bs off = Some [(0, [])]"
  by (subst spec_records.simps) simp

lemma spec_records_unfold_step:
  "cb_at bs off = Some cb \<Longrightarrow> cb \<noteq> 0 \<Longrightarrow>
   spec_records bs off =
     map_option (\<lambda>its. (cb, take (cb - 2) (drop (off + 2) bs)) # its)
       (spec_records bs (off + cb))"
  by (subst spec_records.simps) (simp split: option.splits)

lemma spec_records_unfold_none:
  "cb_at bs off = None \<Longrightarrow> spec_records bs off = None"
  by (subst spec_records.simps) simp

lemma spec_records_shape:
  "spec_records bs off = Some its \<Longrightarrow>
   its \<noteq> [] \<and> fst (last its) = 0 \<and> (\<forall>it \<in> set (butlast its). fst it \<noteq> 0)"
proof (induction bs off arbitrary: its rule: spec_records.induct)
  case (1 bs off)
  show ?case
  proof (cases "cb_at bs off")
    case None
    with "1.prems" show ?thesis by (simp add: spec_records_unfold_none)
  next
    case (Some cb)
    show ?thesis
    proof (cases "cb = 0")
      case True
      with Some "1.prems" show ?thesis by (auto simp: spec_records_unfold_zero)
    next
      case False
      from "1.prems" Some False obtain its' where
        r: "spec_records bs (off + cb) = Some its'" and
        e: "its = (cb, take (cb - 2) (drop (off + 2) bs)) # its'"
        by (auto simp: spec_records_unfold_step)
      from "1.IH"[OF Some False r] False e show ?thesis by auto
    qed
  qed
qed

lemma spec_records_bound:
  "spec_records bs off = Some its \<Longrightarrow> off + sum_list (map fst its) + 2 \<le> length bs"
proof (induction bs off arbitrary: its rule: spec_records.induct)
  case (1 bs off)
  show ?case
  proof (cases "cb_at bs off")
    case None
    with "1.prems" show ?thesis by (simp add: spec_records_unfold_none)
  next
    case (Some cb)
    show ?thesis
    proof (cases "cb = 0")
      case True
      with Some "1.prems" show ?thesis
        by (auto simp: spec_records_unfold_zero cb_at_def split: if_splits)
    next
      case False
      from "1.prems" Some False obtain its' where
        r: "spec_records bs (off + cb) = Some its'" and
        e: "its = (cb, take (cb - 2) (drop (off + 2) bs)) # its'"
        by (auto simp: spec_records_unfold_step)
      from "1.IH"[OF Some False r] e show ?thesis by simp
    qed
  qed
qed

lemma take_eq_nth:
  assumes "take n xs = take n ys" and "i < n" and "i < length xs"
  shows "i < length ys \<and> ys ! i = xs ! i"
proof -
  have "length (take n xs) = length (take n ys)" using assms(1) by simp
  then have l: "i < length ys" using assms(2,3) by (simp add: min_def split: if_splits)
  have "take n xs ! i = take n ys ! i" using assms(1) by simp
  with l assms(2) show ?thesis by simp
qed

lemma cb_at_take_eq:
  assumes "take n bs' = take n bs" and "off + 2 \<le> n" and "cb_at bs off = Some cb"
  shows "cb_at bs' off = Some cb"
proof -
  from assms(3) have lt: "off + 1 < length bs"
    and v: "cb = le16 (bs ! off) (bs ! (off + 1))"
    by (auto simp: cb_at_def split: if_splits)
  have a: "off < length bs' \<and> bs' ! off = bs ! off"
    using take_eq_nth[OF assms(1)[symmetric], of off] assms(2) lt by simp
  have b: "off + 1 < length bs' \<and> bs' ! (off + 1) = bs ! (off + 1)"
    using take_eq_nth[OF assms(1)[symmetric], of "off + 1"] assms(2) lt by simp
  show ?thesis using a b v by (simp add: cb_at_def)
qed

lemma take_drop_take_eq:
  assumes "take n xs = take n ys" and "j + k \<le> n"
  shows "take k (drop j xs) = take k (drop j ys)"
proof -
  have "take k (drop j xs) = drop j (take (j + k) xs)"
    by (simp add: drop_take)
  also have "take (j + k) xs = take (j + k) (take n xs)"
    using assms(2) by (simp add: min_def)
  also have "\<dots> = take (j + k) (take n ys)" using assms(1) by simp
  also have "\<dots> = take (j + k) ys" using assms(2) by (simp add: min_def)
  also have "drop j (take (j + k) ys) = take k (drop j ys)"
    by (simp add: drop_take)
  finally show ?thesis .
qed

lemma spec_records_prefix:
  "spec_records bs off = Some its \<Longrightarrow>
   take (off + sum_list (map fst its) + 2) bs' = take (off + sum_list (map fst its) + 2) bs \<Longrightarrow>
   spec_records bs' off = Some its"
proof (induction bs off arbitrary: its rule: spec_records.induct)
  case (1 bs off)
  show ?case
  proof (cases "cb_at bs off")
    case None
    with "1.prems" show ?thesis by (simp add: spec_records_unfold_none)
  next
    case (Some cb)
    have c': "cb_at bs' off = Some cb"
      by (rule cb_at_take_eq[OF "1.prems"(2) _ Some]) simp
    show ?thesis
    proof (cases "cb = 0")
      case True
      with Some "1.prems" c' show ?thesis by (auto simp: spec_records_unfold_zero)
    next
      case False
      from "1.prems" Some False obtain its' where
        r: "spec_records bs (off + cb) = Some its'" and
        e: "its = (cb, take (cb - 2) (drop (off + 2) bs)) # its'"
        by (auto simp: spec_records_unfold_step)
      have t: "take (off + cb + sum_list (map fst its') + 2) bs'
             = take (off + cb + sum_list (map fst its') + 2) bs"
        using "1.prems"(2) e by (simp add: add.assoc)
      have ih: "spec_records bs' (off + cb) = Some its'"
        by (rule "1.IH"[OF Some False r t])
      have p: "take (cb - 2) (drop (off + 2) bs') = take (cb - 2) (drop (off + 2) bs)"
        by (rule take_drop_take_eq[OF t]) (use False in simp)
      show ?thesis using c' False ih p e by (simp add: spec_records_unfold_step)
    qed
  qed
qed


lemma cb_at_append_right: "cb_at (xs @ ys) (length xs + k) = cb_at ys k"
  by (auto simp: cb_at_def nth_append)

lemma size_loop_records:
  "block_bytes h b = Some bs \<Longrightarrow>
   size_loop h (Ptr b off) s =
     (case spec_records bs off of None \<Rightarrow> Inl access_violation
      | Some its \<Rightarrow> Inr (s + sum_list (map fst its)))"
proof (induction bs off arbitrary: s rule: spec_records.induct)
  case (1 bs off)
  show ?case
  proof (cases "cb_at bs off")
    case None
    then show ?thesis using "1.prems"
      by (subst size_loop.simps, subst spec_records.simps) (simp add: read_cb_def)
  next
    case (Some cb)
    show ?thesis
    proof (cases "cb = 0")
      case True
      then show ?thesis using "1.prems" Some
        by (subst size_loop.simps, subst spec_records.simps) (simp add: read_cb_def)
    next
      case False
      have "size_loop h (Ptr b off) s = size_loop h (Ptr b (off + cb)) (s + cb)"
        using "1.prems" Some False
        by (subst size_loop.simps) (simp add: read_cb_def next_pidl_def)
      also have "\<dots> = (case spec_records bs (off + cb) of None \<Rightarrow> Inl access_violation
          | Some its \<Rightarrow> Inr (s + cb + sum_list (map fst its)))"
        using "1.IH"[OF Some False "1.prems"] .
      also have "\<dots> = (case spec_records bs off of None \<Rightarrow> Inl access_violation
          | Some its \<Rightarrow> Inr (s + sum_list (map fst its)))"
        using Some False
        by (subst (2) spec_records.simps) (simp split: option.splits)
      finally show ?thesis .
    qed
  qed
qed

lemma size_pidl_Ptr:
  "size_pidl h (Ptr b off) =
     (case block_bytes h b of
        None \<Rightarrow> Inl access_violation
      | Some bs \<Rightarrow>
          (case spec_records bs off of
             None \<Rightarrow> Inl access_violation
           | Some its \<Rightarrow> Inr (sum_list (map fst its) + 2)))"
proof (cases "block_bytes h b")
  case None
  then have "size_loop h (Ptr b off) 2 = Inl access_violation"
    by (subst size_loop.simps) (simp add: read_cb_def)
  with None show ?thesis by (simp add: size_pidl_def)
next
  case (Some bs)
  then show ?thesis
    by (simp add: size_pidl_def size_loop_records split: option.splits)
qed

text \<open>
  Claim C3. \<^verbatim>\<open>size\<close> of a null pointer is 0. For a pointer into a live block whose
  record walk reaches a terminator, \<^verbatim>\<open>size\<close> is the sum of the length fields of the
  records walked plus 2; the last record walked is the only one with length field 0;
  the bytes counted lie inside the block; and the result depends on no byte behind
  the terminator: any heap whose block agrees on the bytes counted gives the same
  size.
\<close>

theorem size_pidl_walk:
  assumes "block_bytes h b = Some bs" and "spec_records bs off = Some its"
  shows "size_pidl h NULL = Inr 0
       \<and> size_pidl h (Ptr b off) = Inr (sum_list (map fst its) + 2)
       \<and> its \<noteq> [] \<and> fst (last its) = 0
       \<and> (\<forall>it \<in> set (butlast its). fst it \<noteq> 0)
       \<and> off + (sum_list (map fst its) + 2) \<le> length bs
       \<and> (\<forall>h' bs'. block_bytes h' b = Some bs'
             \<longrightarrow> take (off + (sum_list (map fst its) + 2)) bs'
                 = take (off + (sum_list (map fst its) + 2)) bs
             \<longrightarrow> size_pidl h' (Ptr b off) = size_pidl h (Ptr b off))"
proof -
  have s: "size_pidl h (Ptr b off) = Inr (sum_list (map fst its) + 2)"
    using assms by (simp add: size_pidl_Ptr)
  have f: "size_pidl h' (Ptr b off) = size_pidl h (Ptr b off)"
    if "block_bytes h' b = Some bs'"
      and "take (off + (sum_list (map fst its) + 2)) bs'
         = take (off + (sum_list (map fst its) + 2)) bs" for h' bs'
  proof -
    have "spec_records bs' off = Some its"
      by (rule spec_records_prefix[OF assms(2)]) (use that(2) in \<open>simp add: add.assoc\<close>)
    with that(1) s show ?thesis by (simp add: size_pidl_Ptr)
  qed
  show ?thesis
    using s f spec_records_shape[OF assms(2)] spec_records_bound[OF assms(2)]
    by (simp add: size_pidl_def)
qed

theorem size_pidl_walk_witness:
  "block_bytes heap0 0 = Some [4, 0, 7, 8, 0, 0, 9]
   \<and> spec_records [4, 0, 7, 8, 0, 0, 9] 0 = Some [(4, [7, 8]), (0, [])]
   \<and> size_pidl heap0 (Ptr 0 0) = Inr 6
   \<and> size_pidl (heap0\<lparr>blocks := [Some (CoTaskMemPool, [4, 0, 7, 8, 0, 0, 1, 1, 1])]\<rparr>) (Ptr 0 0) = Inr 6"
proof -
  have a: "block_bytes heap0 0 = Some [4, 0, 7, 8, 0, 0, 9]"
    by (simp add: heap0_def block_bytes_def)
  have b: "spec_records [4, 0, 7, 8, 0, 0, 9] 0 = Some [(4, [7, 8]), (0, [])]"
    by code_simp
  have c: "block_bytes (heap0\<lparr>blocks := [Some (CoTaskMemPool, [4, 0, 7, 8, 0, 0, 1, 1, 1])]\<rparr>) 0
         = Some [4, 0, 7, 8, 0, 0, 1, 1, 1]"
    by (simp add: block_bytes_def)
  note w = size_pidl_walk[OF a b]
  from w have s: "size_pidl heap0 (Ptr 0 0) = Inr 6" by simp
  from w c have "size_pidl (heap0\<lparr>blocks := [Some (CoTaskMemPool, [4, 0, 7, 8, 0, 0, 1, 1, 1])]\<rparr>) (Ptr 0 0)
      = size_pidl heap0 (Ptr 0 0)"
    by simp
  with a b s show ?thesis by simp
qed

subsection \<open>Allocation, copying and the raw algorithms\<close>

lemma size_pidl_PtrE:
  assumes "size_pidl h (Ptr b off) = Inr n"
  obtains bs its where "block_bytes h b = Some bs" and "spec_records bs off = Some its"
    and "n = sum_list (map fst its) + 2" and "off + n \<le> length bs"
proof -
  from assms obtain bs its where a: "block_bytes h b = Some bs"
    and b: "spec_records bs off = Some its" and c: "n = sum_list (map fst its) + 2"
    by (auto simp: size_pidl_Ptr split: option.splits)
  from spec_records_bound[OF b] c have "off + n \<le> length bs" by simp
  with a b c show ?thesis by (rule that)
qed

lemma block_bytes_live:
  "block_bytes h b = Some bs \<Longrightarrow> b < length (blocks h) \<and> (\<exists>p. blocks h ! b = Some (p, bs))"
  by (auto simp: block_bytes_def split: if_splits)

lemma allocate_ok:
  "n \<le> free_bytes h \<Longrightarrow>
   allocate A h n =
     (h\<lparr>blocks := blocks h @ [Some (pool_of A, replicate n (fill h))],
        free_bytes := free_bytes h - n\<rparr>, Inr (Ptr (length (blocks h)) 0))"
  by (simp add: allocate_def)

lemma allocate_fail:
  "free_bytes h < n \<Longrightarrow> allocate A h n = (h, Inl bad_alloc)"
  by (simp add: allocate_def)

lemma memcpy_ok:
  assumes "block_bytes h sb = Some sbs" and "soff + n \<le> length sbs"
    and "db < length (blocks h)" and "blocks h ! db = Some (p, dbs)"
    and "doff + n \<le> length dbs" and "0 < n"
  shows "memcpy h (Ptr db doff) (Ptr sb soff) n =
     (h\<lparr>blocks := (blocks h)[db := Some (p,
          take doff dbs @ take n (drop soff sbs) @ drop (doff + n) dbs)]\<rparr>, Inr ())"
  using assms by (simp add: memcpy_def)

lemma block_bytes_append_old:
  "b < length (blocks h) \<Longrightarrow>
   block_bytes (h\<lparr>blocks := blocks h @ xs, free_bytes := f\<rparr>) b = block_bytes h b"
  by (simp add: block_bytes_def nth_append)

lemma clone_ok:
  assumes s: "size_pidl h (Ptr b off) = Inr n" and bb: "block_bytes h b = Some bs"
    and f: "n \<le> free_bytes h"
  shows "clone A h (Ptr b off) =
     (h\<lparr>blocks := blocks h @ [Some (pool_of A, take n (drop off bs))],
        free_bytes := free_bytes h - n\<rparr>, Inr (Ptr (length (blocks h)) 0))"
proof -
  from s bb have le: "off + n \<le> length bs" and n2: "2 \<le> n"
    by (auto elim!: size_pidl_PtrE)
  from bb have live: "b < length (blocks h)" using block_bytes_live by blast
  define h1 where "h1 = h\<lparr>blocks := blocks h @ [Some (pool_of A, replicate n (fill h))],
        free_bytes := free_bytes h - n\<rparr>"
  have a: "allocate A h n = (h1, Inr (Ptr (length (blocks h)) 0))"
    using f by (simp add: allocate_ok h1_def)
  have sb: "block_bytes h1 b = Some bs"
    using live bb by (simp add: h1_def block_bytes_append_old)
  have m: "memcpy h1 (Ptr (length (blocks h)) 0) (Ptr b off) n =
     (h1\<lparr>blocks := (blocks h1)[length (blocks h) := Some (pool_of A,
          take 0 (replicate n (fill h)) @ take n (drop off bs)
            @ drop (0 + n) (replicate n (fill h)))]\<rparr>, Inr ())"
    by (rule memcpy_ok[OF sb]) (use le n2 in \<open>simp_all add: h1_def\<close>)
  show ?thesis
    using s by (simp add: clone_def a m) (simp add: h1_def)
qed

lemma clone_fail:
  assumes s: "size_pidl h (Ptr b off) = Inr n" and f: "free_bytes h < n"
  shows "clone A h (Ptr b off) = (h, Inl bad_alloc)"
  using s f by (simp add: clone_def allocate_fail)

lemma combine_ok:
  assumes sl: "size_pidl h (Ptr lb lo) = Inr l" and sr: "size_pidl h (Ptr rb ro) = Inr r"
    and bl: "block_bytes h lb = Some lbs" and br: "block_bytes h rb = Some rbs"
    and f: "l + r - 2 \<le> free_bytes h"
  shows "combine A T h (Ptr lb lo) (Ptr rb ro) =
     (h\<lparr>blocks := blocks h @ [Some (pool_of (rebind A (combine_type T)),
            take (l - 2) (drop lo lbs) @ take r (drop ro rbs))],
        free_bytes := free_bytes h - (l + r - 2)\<rparr>, Inr (Ptr (length (blocks h)) 0))"
proof -
  from sl bl have ll: "lo + l \<le> length lbs" and l2: "2 \<le> l"
    by (auto elim!: size_pidl_PtrE)
  from sr br have rl: "ro + r \<le> length rbs" and r2: "2 \<le> r"
    by (auto elim!: size_pidl_PtrE)
  from bl have livel: "lb < length (blocks h)" using block_bytes_live by blast
  from br have liver: "rb < length (blocks h)" using block_bytes_live by blast
  define P where "P = pool_of (rebind A (combine_type T))"
  define N where "N = length (blocks h)"
  define len where "len = l + r - 2"
  define h1 where "h1 = h\<lparr>blocks := blocks h @ [Some (P, replicate len (fill h))],
        free_bytes := free_bytes h - len\<rparr>"
  define d2 where "d2 = take l (drop lo lbs) @ replicate (r - 2) (fill h)"
  define h2 where "h2 = h\<lparr>blocks := blocks h @ [Some (P, d2)],
        free_bytes := free_bytes h - len\<rparr>"
  define h3 where "h3 = h\<lparr>blocks := blocks h @ [Some (P,
        take (l - 2) (drop lo lbs) @ take r (drop ro rbs))],
        free_bytes := free_bytes h - len\<rparr>"
  have a: "allocate (rebind A (combine_type T)) h len = (h1, Inr (Ptr N 0))"
    using f by (simp add: allocate_ok h1_def P_def N_def len_def)
  have sb1: "block_bytes h1 lb = Some lbs"
    using livel bl by (simp add: h1_def block_bytes_append_old)
  have "memcpy h1 (Ptr N 0) (Ptr lb lo) l =
     (h1\<lparr>blocks := (blocks h1)[N := Some (P,
          take 0 (replicate len (fill h)) @ take l (drop lo lbs)
            @ drop (0 + l) (replicate len (fill h)))]\<rparr>, Inr ())"
    by (rule memcpy_ok[OF sb1]) (use ll l2 r2 in \<open>simp_all add: h1_def N_def len_def\<close>)
  also have "h1\<lparr>blocks := (blocks h1)[N := Some (P,
          take 0 (replicate len (fill h)) @ take l (drop lo lbs)
            @ drop (0 + l) (replicate len (fill h)))]\<rparr> = h2"
    using l2 r2 by (simp add: h1_def h2_def d2_def N_def len_def)
  finally have m1: "memcpy h1 (Ptr N 0) (Ptr lb lo) l = (h2, Inr ())" .
  have sb2: "block_bytes h2 rb = Some rbs"
    using liver br by (simp add: h2_def block_bytes_append_old)
  have ld2: "length d2 = len"
    using ll l2 r2 by (simp add: d2_def len_def)
  have "memcpy h2 (Ptr N (l - 2)) (Ptr rb ro) r =
     (h2\<lparr>blocks := (blocks h2)[N := Some (P,
          take (l - 2) d2 @ take r (drop ro rbs) @ drop (l - 2 + r) d2)]\<rparr>, Inr ())"
    by (rule memcpy_ok[OF sb2]) (use rl l2 r2 ld2 in \<open>simp_all add: h2_def N_def len_def\<close>)
  also have "take (l - 2) d2 = take (l - 2) (drop lo lbs)"
    using ll by (simp add: d2_def)
  also have "drop (l - 2 + r) d2 = []"
    using ld2 l2 by (simp add: len_def)
  also have "h2\<lparr>blocks := (blocks h2)[N := Some (P,
          take (l - 2) (drop lo lbs) @ take r (drop ro rbs) @ [])]\<rparr> = h3"
    by (simp add: h2_def h3_def N_def)
  finally have m2: "memcpy h2 (Ptr N (l - 2)) (Ptr rb ro) r = (h3, Inr ())" .
  have "combine A T h (Ptr lb lo) (Ptr rb ro) = (h3, Inr (Ptr N 0))"
    using sl sr l2 r2 a m1 m2
    by (simp add: combine_def assert_passes_def len_def[symmetric])
  then show ?thesis by (simp add: h3_def N_def len_def P_def)
qed

lemma skip_zero: "skip p 0 = p"
  by (cases p) simp_all

lemma size_pidl_NULL: "size_pidl h NULL = Inr 0"
  by (simp add: size_pidl_def)

lemma size_pidl_Address: "size_pidl h (Address a) = Inl access_violation"
proof -
  have "size_loop h (Address a) 2 = Inl access_violation"
    by (subst size_loop.simps) (simp add: read_cb_def)
  then show ?thesis by (simp add: size_pidl_def)
qed

lemma clone_NULL: "clone A h NULL = (h, Inr NULL)"
  by (simp add: clone_def)

lemma clone_Address: "clone A h (Address a) = (h, Inl access_violation)"
  by (simp add: clone_def size_pidl_Address)

lemma combine_Address_left: "combine A T h (Address a) rhs = (h, Inl access_violation)"
  by (simp add: combine_def size_pidl_Address)

lemma combine_Address_right:
  "size_pidl h lhs = Inr k \<Longrightarrow> combine A T h lhs (Address a) = (h, Inl access_violation)"
  by (simp add: combine_def size_pidl_Address)

lemma combine_Address_right_fails: "snd (combine A T h lhs (Address a)) \<noteq> Inr res"
  by (simp add: combine_def size_pidl_Address split: sum.splits)

lemma size_pidl_ge2: "size_pidl h (Ptr b off) = Inr n \<Longrightarrow> 2 \<le> n"
  by (auto elim!: size_pidl_PtrE)

lemma memcpy_zero: "memcpy h dst src 0 = (h, Inr ())"
  by (simp add: memcpy_def)

lemma combine_null_right:
  "combine A T h (Ptr b off) NULL = clone (rebind A (combine_type T)) h (Ptr b off)"
proof (cases "size_pidl h (Ptr b off)")
  case (Inl e)
  then show ?thesis by (simp add: combine_def clone_def)
next
  case (Inr l)
  then have "2 \<le> l" by (rule size_pidl_ge2)
  with Inr show ?thesis
    by (simp add: combine_def clone_def size_pidl_NULL assert_passes_def memcpy_zero
        split: prod.splits sum.splits)
qed

lemma combine_null_left:
  "combine A T h NULL (Ptr b off) = clone (rebind A (combine_type T)) h (Ptr b off)"
proof (cases "size_pidl h (Ptr b off)")
  case (Inl e)
  then show ?thesis by (simp add: combine_def clone_def size_pidl_NULL)
next
  case (Inr r)
  then have "2 \<le> r" by (rule size_pidl_ge2)
  with Inr show ?thesis
    by (simp add: combine_def clone_def size_pidl_NULL assert_passes_def memcpy_zero skip_zero
        split: prod.splits sum.splits)
qed

lemma le16_zero: "le16 lo hi = 0 \<longleftrightarrow> lo = 0 \<and> hi = 0"
  by (simp add: le16_def unat_eq_0)

lemma cb_at_zero_bytes:
  assumes "cb_at bs k = Some 0"
  shows "take 2 (drop k bs) = [0, 0]"
proof -
  from assms have lt: "k + 1 < length bs" and z: "bs ! k = 0 \<and> bs ! (k + 1) = 0"
    by (auto simp: cb_at_def le16_zero split: if_splits)
  have "take 2 (drop k bs) = [drop k bs ! 0, drop k bs ! 1]"
    using lt by (intro nth_equalityI) (auto simp: less_Suc_eq numeral_2_eq_2)
  with lt z show ?thesis by simp
qed

lemma spec_records_terminator:
  "spec_records bs off = Some its \<Longrightarrow> cb_at bs (off + sum_list (map fst its)) = Some 0"
proof (induction bs off arbitrary: its rule: spec_records.induct)
  case (1 bs off)
  show ?case
  proof (cases "cb_at bs off")
    case None
    with "1.prems" show ?thesis by (simp add: spec_records_unfold_none)
  next
    case (Some cb)
    show ?thesis
    proof (cases "cb = 0")
      case True
      with Some "1.prems" show ?thesis by (auto simp: spec_records_unfold_zero)
    next
      case False
      from "1.prems" Some False obtain its' where
        r: "spec_records bs (off + cb) = Some its'" and
        e: "its = (cb, take (cb - 2) (drop (off + 2) bs)) # its'"
        by (auto simp: spec_records_unfold_step)
      from "1.IH"[OF Some False r] e show ?thesis by (simp add: add.assoc)
    qed
  qed
qed

lemma read_cb_zero_size:
  assumes "read_cb h (Ptr b off) = Inr 0"
  shows "size_pidl h (Ptr b off) = Inr 2"
proof -
  from assms obtain bs where bb: "block_bytes h b = Some bs" and c: "cb_at bs off = Some 0"
    by (auto simp: read_cb_def split: option.splits)
  then show ?thesis by (simp add: size_pidl_Ptr spec_records_unfold_zero)
qed

lemma take_terminated:
  assumes t: "take 2 (drop (k + m) bs) = zs" and le: "k + m + 2 \<le> length bs"
  shows "take (m + 2) (drop k bs) = take m (drop k bs) @ zs"
proof -
  have "take (m + 2) (drop k bs) = take m (drop k bs) @ take 2 (drop m (drop k bs))"
    by (rule take_add)
  also have "drop m (drop k bs) = drop (k + m) bs" by (simp add: add.commute)
  finally show ?thesis using t by simp
qed

lemma combine_empty_right:
  assumes e: "read_cb h (Ptr xb xo) = Inr 0"
  shows "combine A T h (Ptr b off) (Ptr xb xo) = clone (rebind A (combine_type T)) h (Ptr b off)"
proof (cases "size_pidl h (Ptr b off)")
  case (Inl e')
  then show ?thesis by (simp add: combine_def clone_def)
next
  case (Inr l)
  have sx: "size_pidl h (Ptr xb xo) = Inr 2" by (rule read_cb_zero_size[OF e])
  from e obtain xbs where bx: "block_bytes h xb = Some xbs" and cx: "cb_at xbs xo = Some 0"
    by (auto simp: read_cb_def split: option.splits)
  from Inr obtain bs its where bb: "block_bytes h b = Some bs"
    and sp: "spec_records bs off = Some its" and l: "l = sum_list (map fst its) + 2"
    and le: "off + l \<le> length bs"
    by (rule size_pidl_PtrE)
  show ?thesis
  proof (cases "l \<le> free_bytes h")
    case True
    have t: "take 2 (drop (off + (l - 2)) bs) = [0, 0]"
      using spec_records_terminator[OF sp] l by (intro cb_at_zero_bytes) simp
    have "take (l - 2 + 2) (drop off bs) = take (l - 2) (drop off bs) @ [0, 0]"
      by (rule take_terminated[OF t]) (use le l in simp)
    then have eq: "take l (drop off bs) = take (l - 2) (drop off bs) @ [0, 0]"
      using l by simp
    have "combine A T h (Ptr b off) (Ptr xb xo) =
       (h\<lparr>blocks := blocks h @ [Some (pool_of (rebind A (combine_type T)),
            take (l - 2) (drop off bs) @ take 2 (drop xo xbs))],
          free_bytes := free_bytes h - (l + 2 - 2)\<rparr>, Inr (Ptr (length (blocks h)) 0))"
      by (rule combine_ok[OF Inr sx bb bx]) (use True in simp)
    moreover have "clone (rebind A (combine_type T)) h (Ptr b off) =
       (h\<lparr>blocks := blocks h @ [Some (pool_of (rebind A (combine_type T)),
            take l (drop off bs))],
          free_bytes := free_bytes h - l\<rparr>, Inr (Ptr (length (blocks h)) 0))"
      by (rule clone_ok[OF Inr bb True])
    ultimately show ?thesis
      using eq cb_at_zero_bytes[OF cx] by simp
  next
    case False
    then have f: "free_bytes h < l" by simp
    from Inr have "2 \<le> l" by (rule size_pidl_ge2)
    with Inr sx f show ?thesis
      by (simp add: combine_def clone_def assert_passes_def allocate_fail)
  qed
qed

lemma combine_empty_left:
  assumes e: "read_cb h (Ptr xb xo) = Inr 0"
  shows "combine A T h (Ptr xb xo) (Ptr b off) = clone (rebind A (combine_type T)) h (Ptr b off)"
proof (cases "size_pidl h (Ptr b off)")
  case (Inl e')
  then show ?thesis using read_cb_zero_size[OF e] by (simp add: combine_def clone_def)
next
  case (Inr r)
  have sx: "size_pidl h (Ptr xb xo) = Inr 2" by (rule read_cb_zero_size[OF e])
  from e obtain xbs where bx: "block_bytes h xb = Some xbs"
    by (auto simp: read_cb_def split: option.splits)
  from Inr obtain bs where bb: "block_bytes h b = Some bs"
    by (rule size_pidl_PtrE)
  show ?thesis
  proof (cases "r \<le> free_bytes h")
    case True
    have "combine A T h (Ptr xb xo) (Ptr b off) =
       (h\<lparr>blocks := blocks h @ [Some (pool_of (rebind A (combine_type T)),
            take (2 - 2) (drop xo xbs) @ take r (drop off bs))],
          free_bytes := free_bytes h - (2 + r - 2)\<rparr>, Inr (Ptr (length (blocks h)) 0))"
      by (rule combine_ok[OF sx Inr bx bb]) (use True in simp)
    moreover have "clone (rebind A (combine_type T)) h (Ptr b off) =
       (h\<lparr>blocks := blocks h @ [Some (pool_of (rebind A (combine_type T)),
            take r (drop off bs))],
          free_bytes := free_bytes h - r\<rparr>, Inr (Ptr (length (blocks h)) 0))"
      by (rule clone_ok[OF Inr bb True])
    ultimately show ?thesis by simp
  next
    case False
    then have f: "free_bytes h < r" by simp
    from Inr have "2 \<le> r" by (rule size_pidl_ge2)
    with Inr sx f show ?thesis
      by (simp add: combine_def clone_def assert_passes_def allocate_fail)
  qed
qed

lemma cb_at_drop: "k \<le> length bs \<Longrightarrow> cb_at (drop k bs) off = cb_at bs (k + off)"
  by (auto simp: cb_at_def add.assoc)

lemma spec_records_drop:
  "k \<le> length bs \<Longrightarrow> spec_records bs (k + off) = Some its \<Longrightarrow>
   spec_records (drop k bs) off = Some its"
proof (induction bs "k + off" arbitrary: off its rule: spec_records.induct)
  case (1 bs)
  show ?case
  proof (cases "cb_at bs (k + off)")
    case None
    with "1.prems" show ?thesis by (simp add: spec_records_unfold_none)
  next
    case (Some cb)
    have c': "cb_at (drop k bs) off = Some cb"
      using Some "1.prems"(1) by (simp add: cb_at_drop)
    show ?thesis
    proof (cases "cb = 0")
      case True
      with Some "1.prems" c' show ?thesis by (auto simp: spec_records_unfold_zero)
    next
      case False
      from "1.prems" Some False obtain its' where
        r: "spec_records bs (k + off + cb) = Some its'" and
        e: "its = (cb, take (cb - 2) (drop (k + off + 2) bs)) # its'"
        by (auto simp: spec_records_unfold_step)
      have "spec_records (drop k bs) (off + cb) = Some its'"
        by (rule "1.hyps"[OF Some False _ "1.prems"(1)]) (use r in \<open>simp_all add: add.assoc\<close>)
      with c' False e show ?thesis
        by (simp add: spec_records_unfold_step add.commute)
    qed
  qed
qed

lemma spec_records_append_right:
  "spec_records ys k = Some its \<Longrightarrow> spec_records (xs @ ys) (length xs + k) = Some its"
proof (induction ys k arbitrary: its rule: spec_records.induct)
  case (1 ys k)
  show ?case
  proof (cases "cb_at ys k")
    case None
    with "1.prems" show ?thesis by (simp add: spec_records_unfold_none)
  next
    case (Some cb)
    have c': "cb_at (xs @ ys) (length xs + k) = Some cb"
      using Some by (simp add: cb_at_append_right)
    show ?thesis
    proof (cases "cb = 0")
      case True
      with Some "1.prems" c' show ?thesis by (auto simp: spec_records_unfold_zero)
    next
      case False
      from "1.prems" Some False obtain its' where
        r: "spec_records ys (k + cb) = Some its'" and
        e: "its = (cb, take (cb - 2) (drop (k + 2) ys)) # its'"
        by (auto simp: spec_records_unfold_step)
      have "spec_records (xs @ ys) (length xs + (k + cb)) = Some its'"
        by (rule "1.IH"[OF Some False r])
      with c' False e show ?thesis
        by (simp add: spec_records_unfold_step add.assoc)
    qed
  qed
qed

lemma cb_at_append_left:
  "off + 1 < length xs \<Longrightarrow> cb_at (xs @ ys) off = cb_at xs off"
  by (simp add: cb_at_def nth_append)

lemma spec_records_join:
  "spec_records a off = Some ra \<Longrightarrow> valid_records ra \<Longrightarrow> spec_records b 0 = Some rb \<Longrightarrow>
   spec_records (take (off + sum_list (map fst ra)) a @ b) off = Some (butlast ra @ rb)"
proof (induction a off arbitrary: ra rule: spec_records.induct)
  case (1 a off)
  note bound = spec_records_bound[OF "1.prems"(1)]
  show ?case
  proof (cases "cb_at a off")
    case None
    with "1.prems" show ?thesis by (simp add: spec_records_unfold_none)
  next
    case (Some cb)
    show ?thesis
    proof (cases "cb = 0")
      case True
      with Some "1.prems" have ra: "ra = [(0, [])]" by (simp add: spec_records_unfold_zero)
      have l: "length (take off a) = off" using bound by simp
      have "spec_records (take off a @ b) (length (take off a) + 0) = Some rb"
        by (rule spec_records_append_right[OF "1.prems"(3)])
      with l ra show ?thesis by simp
    next
      case False
      from "1.prems" Some False obtain ra' where
        r: "spec_records a (off + cb) = Some ra'" and
        e: "ra = (cb, take (cb - 2) (drop (off + 2) a)) # ra'"
        by (auto simp: spec_records_unfold_step)
      from e "1.prems"(2) False have cb2: "2 \<le> cb" and v': "valid_records ra'"
        by (auto simp: valid_records_def)
      from spec_records_shape[OF r] have ne: "ra' \<noteq> []" by simp
      define n' where "n' = sum_list (map fst ra')"
      define c where "c = take (off + cb + n') a @ b"
      have la: "off + cb + n' + 2 \<le> length a"
        using spec_records_bound[OF r] by (simp add: n'_def)
      have ih: "spec_records c (off + cb) = Some (butlast ra' @ rb)"
        unfolding c_def n'_def by (rule "1.IH"[OF Some False r v' "1.prems"(3)])
      have c1: "cb_at c off = Some cb"
      proof -
        have "cb_at c off = cb_at (take (off + cb + n') a) off"
          unfolding c_def by (rule cb_at_append_left) (use la cb2 in simp)
        also have "\<dots> = Some cb"
          by (rule cb_at_take_eq[OF _ _ Some, of "off + cb + n'"]) (use cb2 in simp_all)
        finally show ?thesis .
      qed
      have p: "take (cb - 2) (drop (off + 2) c) = take (cb - 2) (drop (off + 2) a)"
      proof (rule take_drop_take_eq[of "off + cb + n'"])
        show "take (off + cb + n') c = take (off + cb + n') a"
          using la by (simp add: c_def)
        show "off + 2 + (cb - 2) \<le> off + cb + n'" using cb2 by simp
      qed
      have "spec_records c off = Some ((cb, take (cb - 2) (drop (off + 2) a)) # butlast ra' @ rb)"
        using c1 False ih p by (simp add: spec_records_unfold_step)
      moreover have "take (off + sum_list (map fst ra)) a @ b = c"
        by (simp add: c_def e n'_def add.assoc)
      ultimately show ?thesis using e ne by simp
    qed
  qed
qed

lemma one_terminator:
  assumes "spec_records bs off = Some its"
  shows "length (filter (\<lambda>it. fst it = 0) its) = 1"
proof -
  from spec_records_shape[OF assms] have ne: "its \<noteq> []" and l: "fst (last its) = 0"
    and b: "\<forall>it \<in> set (butlast its). fst it \<noteq> 0"
    by simp_all
  from ne have "its = butlast its @ [last its]" by simp
  then have "filter (\<lambda>it. fst it = 0) its
      = filter (\<lambda>it. fst it = 0) (butlast its) @ filter (\<lambda>it. fst it = 0) [last its]"
    by (metis filter_append)
  moreover have "filter (\<lambda>it. fst it = 0) (butlast its) = []"
    using b by (simp add: filter_empty_conv)
  ultimately show ?thesis using l by simp
qed

text \<open>
  Claim C6. \<^verbatim>\<open>clone\<close> of a null pointer is a null pointer and leaves the heap as it
  was. For a pointer into a live block, whichever pool the block came from, of size
  \<open>n\<close>: when the allocator can supply \<open>n\<close> bytes, \<^verbatim>\<open>clone\<close> adds one block of exactly
  \<open>n\<close> bytes, taken from the allocator's pool, that holds the first \<open>n\<close> bytes the
  pointer points at, and returns its address; when it cannot, \<^verbatim>\<open>std::bad_alloc\<close>
  leaves the heap as it was.
\<close>

theorem clone_copies:
  assumes "blocks h ! b = Some (p, bs)" and "b < length (blocks h)"
    and "size_pidl h (Ptr b off) = Inr n"
  shows "clone A h NULL = (h, Inr NULL)
       \<and> length (take n (drop off bs)) = n
       \<and> (n \<le> free_bytes h \<longrightarrow>
            clone A h (Ptr b off) =
              (h\<lparr>blocks := blocks h @ [Some (pool_of A, take n (drop off bs))],
                 free_bytes := free_bytes h - n\<rparr>, Inr (Ptr (length (blocks h)) 0)))
       \<and> (free_bytes h < n \<longrightarrow> clone A h (Ptr b off) = (h, Inl bad_alloc))"
proof -
  from assms(1,2) have bb: "block_bytes h b = Some bs"
    by (simp add: block_bytes_def)
  from assms(3) bb have "off + n \<le> length bs"
    by (auto elim!: size_pidl_PtrE)
  then have "length (take n (drop off bs)) = n" by simp
  then show ?thesis
    using clone_ok[OF assms(3) bb] clone_fail[OF assms(3)]
    by (simp add: clone_def)
qed

theorem clone_copies_witness:
  "clone (cotaskmem_alloc ITEMIDLIST_RELATIVE) heap0 (Ptr 0 0) =
     (heap0\<lparr>blocks := blocks heap0 @ [Some (CoTaskMemPool, [4, 0, 7, 8, 0, 0])],
            free_bytes := 10\<rparr>, Inr (Ptr 1 0))
   \<and> clone (cotaskmem_alloc ITEMIDLIST_RELATIVE) (heap0\<lparr>free_bytes := 5\<rparr>) (Ptr 0 0) =
     (heap0\<lparr>free_bytes := 5\<rparr>, Inl bad_alloc)"
proof -
  have a: "blocks heap0 ! 0 = Some (NewDeletePool, [4, 0, 7, 8, 0, 0, 9])"
    and b: "0 < length (blocks heap0)"
    by (simp_all add: heap0_def)
  have c: "size_pidl heap0 (Ptr 0 0) = Inr 6"
    by code_simp
  have a': "blocks (heap0\<lparr>free_bytes := 5\<rparr>) ! 0 = Some (NewDeletePool, [4, 0, 7, 8, 0, 0, 9])"
    and b': "0 < length (blocks (heap0\<lparr>free_bytes := 5\<rparr>))"
    by (simp_all add: heap0_def)
  have c': "size_pidl (heap0\<lparr>free_bytes := 5\<rparr>) (Ptr 0 0) = Inr 6"
    by code_simp
  from clone_copies[OF a b c, of "cotaskmem_alloc ITEMIDLIST_RELATIVE"]
  have 1: "clone (cotaskmem_alloc ITEMIDLIST_RELATIVE) heap0 (Ptr 0 0) =
     (heap0\<lparr>blocks := blocks heap0 @ [Some (CoTaskMemPool, [4, 0, 7, 8, 0, 0])],
            free_bytes := 10\<rparr>, Inr (Ptr 1 0))"
    by (simp add: heap0_def)
  from clone_copies[OF a' b' c', of "cotaskmem_alloc ITEMIDLIST_RELATIVE"]
  have 2: "clone (cotaskmem_alloc ITEMIDLIST_RELATIVE) (heap0\<lparr>free_bytes := 5\<rparr>) (Ptr 0 0) =
     (heap0\<lparr>free_bytes := 5\<rparr>, Inl bad_alloc)"
    by (simp add: heap0_def)
  from 1 2 show ?thesis by simp
qed

text \<open>
  Claim C1. For two non-null pointers whose walks reach a terminator, with sizes \<open>l\<close>
  and \<open>r\<close>, the left-hand records well formed, and an allocator that can supply the
  memory: \<^verbatim>\<open>combine\<close> returns the address of a new block of exactly \<open>l + r - 2\<close> bytes,
  which are the first \<open>l - 2\<close> bytes of the left-hand buffer followed by the \<open>r\<close> bytes
  of the right-hand one (they start where the left-hand terminator was); its records
  are the records of the left-hand buffer without the terminator followed by all the
  records of the right-hand one, with one terminator among them.
\<close>

theorem combine_joins:
  assumes bl: "block_bytes h lb = Some lbs" and br: "block_bytes h rb = Some rbs"
    and sl: "size_pidl h (Ptr lb lo) = Inr l" and sr: "size_pidl h (Ptr rb ro) = Inr r"
    and rl: "spec_records lbs lo = Some itsl" and rr: "spec_records rbs ro = Some itsr"
    and v: "valid_records itsl"
    and f: "l + r - 2 \<le> free_bytes h"
  shows "combine A T h (Ptr lb lo) (Ptr rb ro) =
           (h\<lparr>blocks := blocks h @ [Some (pool_of (rebind A (combine_type T)),
                  take (l - 2) (drop lo lbs) @ take r (drop ro rbs))],
              free_bytes := free_bytes h - (l + r - 2)\<rparr>, Inr (Ptr (length (blocks h)) 0))
       \<and> block_bytes h (length (blocks h)) = None
       \<and> length (take (l - 2) (drop lo lbs) @ take r (drop ro rbs)) = l + r - 2
       \<and> spec_records (take (l - 2) (drop lo lbs) @ take r (drop ro rbs)) 0
           = Some (butlast itsl @ itsr)
       \<and> length (filter (\<lambda>it. fst it = 0) (butlast itsl @ itsr)) = 1"
proof -
  from sl bl rl have l: "l = sum_list (map fst itsl) + 2" and ll: "lo + l \<le> length lbs"
    by (auto elim!: size_pidl_PtrE)
  from sr br rr have r: "r = sum_list (map fst itsr) + 2" and rlen: "ro + r \<le> length rbs"
    by (auto elim!: size_pidl_PtrE)
  have len: "length (take (l - 2) (drop lo lbs) @ take r (drop ro rbs)) = l + r - 2"
    using ll rlen l by simp
  have a: "spec_records (drop lo lbs) 0 = Some itsl"
    by (rule spec_records_drop) (use ll rl in simp_all)
  have "spec_records (drop ro rbs) 0 = Some itsr"
    by (rule spec_records_drop) (use rlen rr in simp_all)
  then have b: "spec_records (take r (drop ro rbs)) 0 = Some itsr"
    by (rule spec_records_prefix) (simp add: r)
  have j: "spec_records (take (0 + sum_list (map fst itsl)) (drop lo lbs) @ take r (drop ro rbs)) 0
         = Some (butlast itsl @ itsr)"
    by (rule spec_records_join[OF a v b])
  then have recs: "spec_records (take (l - 2) (drop lo lbs) @ take r (drop ro rbs)) 0
         = Some (butlast itsl @ itsr)"
    by (simp add: l)
  have c: "combine A T h (Ptr lb lo) (Ptr rb ro) =
           (h\<lparr>blocks := blocks h @ [Some (pool_of (rebind A (combine_type T)),
                  take (l - 2) (drop lo lbs) @ take r (drop ro rbs))],
              free_bytes := free_bytes h - (l + r - 2)\<rparr>, Inr (Ptr (length (blocks h)) 0))"
    by (rule combine_ok[OF sl sr bl br f])
  have fr: "block_bytes h (length (blocks h)) = None"
    by (simp add: block_bytes_def)
  from c fr len recs one_terminator[OF recs] show ?thesis
    by blast
qed

theorem combine_joins_witness:
  "combine (newdelete_alloc ITEMID_CHILD) ITEMID_CHILD heap1 (Ptr 0 0) (Ptr 1 0) =
     (heap1\<lparr>blocks := blocks heap1 @ [Some (NewDeletePool, [4, 0, 7, 8, 3, 0, 5, 0, 0])],
            free_bytes := 11\<rparr>, Inr (Ptr 3 0))
   \<and> spec_records [4, 0, 7, 8, 3, 0, 5, 0, 0] 0 = Some [(4, [7, 8]), (3, [5]), (0, [])]"
proof -
  have bl: "block_bytes heap1 0 = Some [4, 0, 7, 8, 0, 0, 9]"
    and br: "block_bytes heap1 1 = Some [3, 0, 5, 0, 0]"
    by (simp_all add: heap1_def block_bytes_def)
  have sl: "size_pidl heap1 (Ptr 0 0) = Inr 6" and sr: "size_pidl heap1 (Ptr 1 0) = Inr 5"
    by code_simp+
  have rl: "spec_records [4, 0, 7, 8, 0, 0, 9] 0 = Some [(4, [7, 8]), (0, [])]"
    and rr: "spec_records [3, 0, 5, 0, 0] 0 = Some [(3, [5]), (0, [])]"
    by code_simp+
  have v: "valid_records [(4, [7, 8 :: byte]), (0, [])]"
    by (simp add: valid_records_def)
  have f: "6 + 5 - 2 \<le> free_bytes heap1"
    by (simp add: heap1_def)
  from combine_joins[OF bl br sl sr rl rr v f, of "newdelete_alloc ITEMID_CHILD" ITEMID_CHILD]
  show ?thesis by (simp add: heap1_def)
qed

subsection \<open>The identities of \<^verbatim>\<open>combine\<close>\<close>

lemma empty_pidl_cases:
  "empty_pidl h \<lparr>m_pidl = X\<rparr> = Inr True \<longleftrightarrow> X = NULL \<or> read_cb h X = Inr 0"
  by (auto simp: empty_pidl_def split: sum.splits)

text \<open>
  Claim C2, amended. \<^verbatim>\<open>combine\<close> of two null pointers is a null pointer and leaves the
  heap as it was. For a non-null pointer \<open>L\<close> and an \<open>X\<close> that is null or points at a
  terminator, \<^verbatim>\<open>combine(L, X)\<close> and \<^verbatim>\<open>combine(X, L)\<close> do exactly what \<^verbatim>\<open>clone(L)\<close> does
  with the allocator of the result: the same heap, the same pointer, the same error. So
  a null \<open>L\<close> with an empty \<open>X\<close> gives a clone of \<open>X\<close>, a new two-byte list, and not a
  null pointer.
\<close>

theorem combine_identities:
  assumes "L \<noteq> NULL" and "empty_pidl h \<lparr>m_pidl = X\<rparr> = Inr True"
  shows "combine A T h NULL NULL = (h, Inr NULL)
       \<and> combine A T h L X = clone (rebind A (combine_type T)) h L
       \<and> combine A T h X L = clone (rebind A (combine_type T)) h L"
proof -
  have n: "combine A T h NULL NULL = (h, Inr NULL)" by (simp add: combine_def)
  from assms(2) consider "X = NULL" | xb xo where "X = Ptr xb xo" "read_cb h (Ptr xb xo) = Inr 0"
    by (cases X) (auto simp: empty_pidl_cases read_cb_def)
  note x = this
  show ?thesis
  proof (cases L)
    case NULL
    with assms(1) show ?thesis by simp
  next
    case (Address a)
    have "\<exists>k. size_pidl h X = Inr k"
      using x by cases (auto simp: size_pidl_NULL read_cb_zero_size)
    then obtain k where "size_pidl h X = Inr k" ..
    with Address n show ?thesis
      by (simp add: combine_Address_left combine_Address_right clone_Address)
  next
    case (Ptr b off)
    note L = Ptr
    from x show ?thesis
    proof cases
      case 1
      with L n show ?thesis by (simp add: combine_null_left combine_null_right)
    next
      case 2
      with L n show ?thesis by (simp add: combine_empty_left combine_empty_right)
    qed
  qed
qed

theorem combine_identities_witness:
  "combine (newdelete_alloc ITEMIDLIST_RELATIVE) ITEMIDLIST_RELATIVE heap1 (Ptr 1 0) (Ptr 2 0)
     = clone (newdelete_alloc ITEMIDLIST_RELATIVE) heap1 (Ptr 1 0)
   \<and> combine (newdelete_alloc ITEMIDLIST_RELATIVE) ITEMIDLIST_RELATIVE heap1 NULL (Ptr 1 0)
     = clone (newdelete_alloc ITEMIDLIST_RELATIVE) heap1 (Ptr 1 0)
   \<and> clone (newdelete_alloc ITEMIDLIST_RELATIVE) heap1 (Ptr 1 0)
     = (heap1\<lparr>blocks := blocks heap1 @ [Some (NewDeletePool, [3, 0, 5, 0, 0])],
              free_bytes := 15\<rparr>, Inr (Ptr 3 0))"
proof -
  have a: "Ptr 1 0 \<noteq> NULL" by simp
  have b: "empty_pidl heap1 \<lparr>m_pidl = Ptr 2 0\<rparr> = Inr True"
    by code_simp
  have c: "empty_pidl heap1 \<lparr>m_pidl = NULL\<rparr> = Inr True"
    by code_simp
  have d: "clone (newdelete_alloc ITEMIDLIST_RELATIVE) heap1 (Ptr 1 0)
     = (heap1\<lparr>blocks := blocks heap1 @ [Some (NewDeletePool, [3, 0, 5, 0, 0])],
              free_bytes := 15\<rparr>, Inr (Ptr 3 0))"
    by code_simp
  from combine_identities[OF a b, of "newdelete_alloc ITEMIDLIST_RELATIVE" ITEMIDLIST_RELATIVE]
    combine_identities[OF a c, of "newdelete_alloc ITEMIDLIST_RELATIVE" ITEMIDLIST_RELATIVE] d
  show ?thesis by simp
qed

theorem combine_null_empty_counterexample:
  "empty_pidl heap1 \<lparr>m_pidl = Ptr 2 0\<rparr> = Inr True
   \<and> combine (newdelete_alloc ITEMIDLIST_RELATIVE) ITEMIDLIST_RELATIVE heap1 NULL (Ptr 2 0)
       = (heap1\<lparr>blocks := blocks heap1 @ [Some (NewDeletePool, [0, 0])], free_bytes := 18\<rparr>,
          Inr (Ptr 3 0))
   \<and> combine (newdelete_alloc ITEMIDLIST_RELATIVE) ITEMIDLIST_RELATIVE heap1 (Ptr 2 0) NULL
       = (heap1\<lparr>blocks := blocks heap1 @ [Some (NewDeletePool, [0, 0])], free_bytes := 18\<rparr>,
          Inr (Ptr 3 0))
   \<and> clone (newdelete_alloc ITEMIDLIST_RELATIVE) heap1 NULL = (heap1, Inr NULL)
   \<and> combine (newdelete_alloc ITEMIDLIST_RELATIVE) ITEMIDLIST_RELATIVE heap1 NULL (Ptr 2 0)
       \<noteq> clone (newdelete_alloc ITEMIDLIST_RELATIVE) heap1 NULL"
  by code_simp

subsection \<open>Freshness\<close>

lemma alloc_eq_same: "alloc_eq A A = Some True"
  by (cases A) simp_all

lemma swap_exchange:
  "swap A h this pidl = (h, this\<lparr>m_pidl := m_pidl pidl\<rparr>, pidl\<lparr>m_pidl := m_pidl this\<rparr>, Inr ())"
  by (subst swap.simps) (simp add: alloc_eq_same)

lemma fresh_in_append:
  "fresh_in h (h\<lparr>blocks := blocks h @ [Some x], free_bytes := f\<rparr>) (Ptr (length (blocks h)) 0)"
  by (simp add: fresh_in_def block_bytes_def)

lemma clone_result:
  assumes "clone A h (Ptr b off) = (h1, Inr res)"
  shows "fresh_in h h1 res \<and> b < length (blocks h)"
proof (cases "size_pidl h (Ptr b off)")
  case (Inl e)
  with assms show ?thesis by (simp add: clone_def)
next
  case (Inr n)
  then obtain bs where bb: "block_bytes h b = Some bs" by (rule size_pidl_PtrE)
  then have live: "b < length (blocks h)" using block_bytes_live by blast
  show ?thesis
  proof (cases "n \<le> free_bytes h")
    case True
    from clone_ok[OF Inr bb True, of A] assms live show ?thesis
      by (auto simp: fresh_in_append)
  next
    case False
    then have "free_bytes h < n" by simp
    from clone_fail[OF Inr this, of A] assms show ?thesis by simp
  qed
qed

lemma combine_result:
  assumes "combine A T h (Ptr lb lo) (Ptr rb ro) = (h1, Inr res)"
  shows "fresh_in h h1 res \<and> lb < length (blocks h) \<and> rb < length (blocks h)"
proof (cases "size_pidl h (Ptr lb lo)")
  case (Inl e)
  with assms show ?thesis by (simp add: combine_def)
next
  case l: (Inr l)
  show ?thesis
  proof (cases "size_pidl h (Ptr rb ro)")
    case (Inl e)
    with l assms show ?thesis by (simp add: combine_def)
  next
    case r: (Inr r)
    from l obtain lbs where bl: "block_bytes h lb = Some lbs" by (rule size_pidl_PtrE)
    from r obtain rbs where br: "block_bytes h rb = Some rbs" by (rule size_pidl_PtrE)
    have live: "lb < length (blocks h) \<and> rb < length (blocks h)"
      using bl br block_bytes_live by blast
    have l2: "2 \<le> l" and r2: "2 \<le> r"
      using l r by (auto dest: size_pidl_ge2)
    show ?thesis
    proof (cases "l + r - 2 \<le> free_bytes h")
      case True
      from combine_ok[OF l r bl br True, of A T] assms live show ?thesis
        by (auto simp: fresh_in_append)
    next
      case False
      then have "free_bytes h < l + r - 2" by simp
      with l r l2 r2 have "combine A T h (Ptr lb lo) (Ptr rb ro) = (h, Inl bad_alloc)"
        by (simp add: combine_def assert_passes_def allocate_fail)
      with assms show ?thesis by simp
    qed
  qed
qed

lemma combine_fresh_raw:
  assumes c: "combine A T h lhs rhs = (h1, Inr res)" and nn: "res \<noteq> NULL"
  shows "fresh_in h h1 res \<and> res \<noteq> lhs \<and> res \<noteq> rhs"
proof (cases lhs)
  case NULL
  note ln = NULL
  show ?thesis
  proof (cases rhs)
    case NULL
    with ln c nn show ?thesis by (simp add: combine_def)
  next
    case (Ptr rb ro)
    with ln c have "clone (rebind A (combine_type T)) h (Ptr rb ro) = (h1, Inr res)"
      by (simp add: combine_null_left)
    from clone_result[OF this] ln Ptr nn show ?thesis
      by (auto simp: fresh_in_def)
  next
    case (Address a)
    with c combine_Address_right_fails[of A T h lhs a res] show ?thesis by simp
  qed
next
  case (Address a)
  with c show ?thesis by (simp add: combine_Address_left)
next
  case (Ptr lb lo)
  note lp = Ptr
  show ?thesis
  proof (cases rhs)
    case NULL
    with lp c have "clone (rebind A (combine_type T)) h (Ptr lb lo) = (h1, Inr res)"
      by (simp add: combine_null_right)
    from clone_result[OF this] lp NULL nn show ?thesis
      by (auto simp: fresh_in_def)
  next
    case (Address a)
    with c combine_Address_right_fails[of A T h lhs a res] show ?thesis by simp
  next
    case (Ptr rb ro)
    with lp c have "combine A T h (Ptr lb lo) (Ptr rb ro) = (h1, Inr res)" by simp
    from combine_result[OF this] lp Ptr show ?thesis
      by (auto simp: fresh_in_def)
  qed
qed

lemma combine_operands_old:
  assumes c: "combine A T h lhs rhs = (h1, Inr res)"
  shows "(lhs = Ptr b off \<longrightarrow> b < length (blocks h))
       \<and> (rhs = Ptr b off \<longrightarrow> b < length (blocks h))"
proof (cases lhs)
  case NULL
  note ln = NULL
  show ?thesis
  proof (cases rhs)
    case NULL
    with ln show ?thesis by simp
  next
    case (Ptr rb ro)
    with ln c have "clone (rebind A (combine_type T)) h (Ptr rb ro) = (h1, Inr res)"
      by (simp add: combine_null_left)
    from clone_result[OF this] ln Ptr show ?thesis by simp
  next
    case (Address a)
    with ln show ?thesis by simp
  qed
next
  case (Address a)
  with c show ?thesis by (simp add: combine_Address_left)
next
  case (Ptr lb lo)
  note lp = Ptr
  show ?thesis
  proof (cases rhs)
    case NULL
    with lp c have "clone (rebind A (combine_type T)) h (Ptr lb lo) = (h1, Inr res)"
      by (simp add: combine_null_right)
    from clone_result[OF this] lp NULL show ?thesis by simp
  next
    case (Address a)
    with c combine_Address_right_fails[of A T h lhs a res] show ?thesis by simp
  next
    case (Ptr rb ro)
    with lp c have "combine A T h (Ptr lb lo) (Ptr rb ro) = (h1, Inr res)" by simp
    from combine_result[OF this] lp Ptr show ?thesis by simp
  qed
qed

lemma operator_plus_local_result:
  assumes "operator_plus_local A T h x y = (h1, Inr pidl)"
  shows "combine (join_allocator A T) T h (m_pidl x) (m_pidl y) = (h1, Inr (m_pidl pidl))"
  using assms
  by (auto simp: operator_plus_local_def attach_def basic_pidl_default_def deallocate_def get_def
      split: prod.splits sum.splits if_splits)

lemma deallocate_blocks:
  "blocks (fst (deallocate A h p)) = blocks h
   \<or> (\<exists>b. p = Ptr b 0 \<and> blocks (fst (deallocate A h p)) = (blocks h)[b := None])"
  by (auto simp: deallocate_def split: ptr.splits option.splits if_splits)

lemma fresh_in_new_block: "fresh_in h h' res \<Longrightarrow> new_block h h' res"
  by (simp add: fresh_in_def new_block_def)

lemma operator_plus_new_block:
  assumes op: "operator_plus A T h x y = (h1, Inr w)" and nn: "m_pidl w \<noteq> NULL"
  shows "new_block h h1 (m_pidl w) \<and> m_pidl w \<noteq> m_pidl x \<and> m_pidl w \<noteq> m_pidl y"
proof -
  define JA where "JA = join_allocator A T"
  from op obtain ha pidl where loc: "operator_plus_local A T h x y = (ha, Inr pidl)"
    and ret: "return_local JA ha pidl = (h1, Inr w)"
    by (auto simp: operator_plus_def JA_def split: prod.splits sum.splits)
  have c: "combine JA T h (m_pidl x) (m_pidl y) = (ha, Inr (m_pidl pidl))"
    unfolding JA_def by (rule operator_plus_local_result[OF loc])
  show ?thesis
  proof (cases "nrvo ha")
    case True
    with ret have "w = pidl" and "h1 = ha" by (simp_all add: return_local_def)
    with combine_fresh_raw[OF c] nn show ?thesis by (simp add: fresh_in_new_block)
  next
    case False
    with ret obtain hb where cl: "clone JA ha (m_pidl pidl) = (hb, Inr (m_pidl w))"
      and h1: "h1 = fst (deallocate JA hb (m_pidl pidl))"
      by (auto simp: return_local_def construct_copy_def construct_raw_def destroy_def
          split: prod.splits sum.splits)
    from cl nn obtain rb ro where raw: "m_pidl pidl = Ptr rb ro"
      by (cases "m_pidl pidl") (auto simp: clone_NULL clone_Address)
    define N where "N = length (blocks h)"
    define M where "M = length (blocks ha)"
    from combine_fresh_raw[OF c] raw have r0: "rb = N" "ro = 0"
      and liveN: "block_bytes ha N \<noteq> None" and tN: "take N (blocks ha) = blocks h"
      by (simp_all add: fresh_in_def N_def)
    from clone_result[of JA ha rb ro hb "m_pidl w"] cl raw have w: "m_pidl w = Ptr M 0"
      and liveM: "block_bytes hb M \<noteq> None" and tM: "take M (blocks hb) = blocks ha"
      by (simp_all add: fresh_in_def M_def)
    from liveN have NM: "N < M"
      by (simp add: block_bytes_def M_def split: if_splits)
    from liveM have Mb: "M < length (blocks hb)"
      by (simp add: block_bytes_def split: if_splits)
    have tb: "take N (blocks hb) = blocks h"
    proof -
      have "take N (blocks hb) = take N (take M (blocks hb))" using NM by (simp add: min_def)
      with tM tN show ?thesis by simp
    qed
    from deallocate_blocks[of JA hb "m_pidl pidl"] raw r0 h1
    have b1: "blocks h1 = blocks hb \<or> blocks h1 = (blocks hb)[N := None]"
      by auto
    have live1: "block_bytes h1 M \<noteq> None"
      using b1 liveM NM Mb by (auto simp: block_bytes_def)
    have t1: "take N (blocks h1) = blocks h"
      using b1 tb by auto
    have nb: "new_block h h1 (m_pidl w)"
      using w NM live1 t1 by (simp add: new_block_def N_def)
    from combine_operands_old[OF c, of M 0] w NM
    have "m_pidl w \<noteq> m_pidl x \<and> m_pidl w \<noteq> m_pidl y"
      by (auto simp: N_def)
    with nb show ?thesis by simp
  qed
qed

text \<open>
  Claim C10. Whenever \<^verbatim>\<open>combine\<close> returns a non-null pointer, that pointer is the start
  of a block the heap did not have before, it differs from both operands, and every
  block the heap had is left as it was. In \<^verbatim>\<open>operator+\<close> the local wrapper holds exactly
  the pointer \<^verbatim>\<open>combine\<close> returned: \<^verbatim>\<open>attach\<close> adopts it and clones nothing. The wrapper
  that \<^verbatim>\<open>operator+\<close> returns, be the copy at the \<^verbatim>\<open>return\<close> elided or made, holds when it
  is not null the start of a live block that the heap did not have before, different
  from what either operand wrapper holds, and every block the heap had is left as it
  was.
\<close>

theorem combine_never_aliases:
  "(\<forall>h1 res. combine A T h lhs rhs = (h1, Inr res) \<and> res \<noteq> NULL
       \<longrightarrow> fresh_in h h1 res \<and> res \<noteq> lhs \<and> res \<noteq> rhs)
   \<and> (\<forall>h1 pidl. operator_plus_local A T h x y = (h1, Inr pidl)
       \<longrightarrow> combine (join_allocator A T) T h (m_pidl x) (m_pidl y) = (h1, Inr (m_pidl pidl)))
   \<and> (\<forall>h1 w. operator_plus A T h x y = (h1, Inr w) \<and> m_pidl w \<noteq> NULL
       \<longrightarrow> new_block h h1 (m_pidl w) \<and> m_pidl w \<noteq> m_pidl x \<and> m_pidl w \<noteq> m_pidl y)"
proof -
  have 1: "\<forall>h1 res. combine A T h lhs rhs = (h1, Inr res) \<and> res \<noteq> NULL
       \<longrightarrow> fresh_in h h1 res \<and> res \<noteq> lhs \<and> res \<noteq> rhs"
    by (intro allI impI, elim conjE, erule (1) combine_fresh_raw)
  have 2: "\<forall>h1 pidl. operator_plus_local A T h x y = (h1, Inr pidl)
       \<longrightarrow> combine (join_allocator A T) T h (m_pidl x) (m_pidl y) = (h1, Inr (m_pidl pidl))"
    by (intro allI impI, erule operator_plus_local_result)
  have 3: "\<forall>h1 w. operator_plus A T h x y = (h1, Inr w) \<and> m_pidl w \<noteq> NULL
       \<longrightarrow> new_block h h1 (m_pidl w) \<and> m_pidl w \<noteq> m_pidl x \<and> m_pidl w \<noteq> m_pidl y"
    by (intro allI impI, elim conjE, erule (1) operator_plus_new_block)
  show ?thesis
    by (rule conjI[OF 1 conjI[OF 2 3]])
qed

theorem combine_never_aliases_witness:
  "combine (newdelete_alloc ITEMID_CHILD) ITEMID_CHILD heap1 (Ptr 0 0) (Ptr 1 0)
     = (heap1\<lparr>blocks := blocks heap1 @ [Some (NewDeletePool, [4, 0, 7, 8, 3, 0, 5, 0, 0])],
              free_bytes := 11\<rparr>, Inr (Ptr 3 0))
   \<and> fresh_in heap1
        (heap1\<lparr>blocks := blocks heap1 @ [Some (NewDeletePool, [4, 0, 7, 8, 3, 0, 5, 0, 0])],
              free_bytes := 11\<rparr>) (Ptr 3 0)
   \<and> operator_plus (newdelete_alloc ITEMID_CHILD) ITEMID_CHILD heap1
        \<lparr>m_pidl = Ptr 0 0\<rparr> \<lparr>m_pidl = Ptr 1 0\<rparr>
     = (heap1\<lparr>blocks := blocks heap1 @ [None,
                  Some (NewDeletePool, [4, 0, 7, 8, 3, 0, 5, 0, 0])],
              free_bytes := 11\<rparr>, Inr \<lparr>m_pidl = Ptr 4 0\<rparr>)
   \<and> new_block heap1
        (heap1\<lparr>blocks := blocks heap1 @ [None,
                  Some (NewDeletePool, [4, 0, 7, 8, 3, 0, 5, 0, 0])],
              free_bytes := 11\<rparr>) (Ptr 4 0)
   \<and> operator_plus (newdelete_alloc ITEMID_CHILD) ITEMID_CHILD (heap1\<lparr>nrvo := True\<rparr>)
        \<lparr>m_pidl = Ptr 0 0\<rparr> \<lparr>m_pidl = Ptr 1 0\<rparr>
     = (heap1\<lparr>blocks := blocks heap1 @ [Some (NewDeletePool, [4, 0, 7, 8, 3, 0, 5, 0, 0])],
              free_bytes := 11, nrvo := True\<rparr>, Inr \<lparr>m_pidl = Ptr 3 0\<rparr>)
   \<and> operator_plus (newdelete_alloc ITEMID_CHILD) ITEMID_CHILD (heap1\<lparr>free_bytes := 9\<rparr>)
        \<lparr>m_pidl = Ptr 0 0\<rparr> \<lparr>m_pidl = Ptr 1 0\<rparr>
     = (heap1\<lparr>blocks := blocks heap1 @ [None], free_bytes := 9\<rparr>, Inl bad_alloc)"
proof -
  have a: "combine (newdelete_alloc ITEMID_CHILD) ITEMID_CHILD heap1 (Ptr 0 0) (Ptr 1 0)
     = (heap1\<lparr>blocks := blocks heap1 @ [Some (NewDeletePool, [4, 0, 7, 8, 3, 0, 5, 0, 0])],
              free_bytes := 11\<rparr>, Inr (Ptr 3 0))"
    by code_simp
  have b: "operator_plus (newdelete_alloc ITEMID_CHILD) ITEMID_CHILD heap1
        \<lparr>m_pidl = Ptr 0 0\<rparr> \<lparr>m_pidl = Ptr 1 0\<rparr>
     = (heap1\<lparr>blocks := blocks heap1 @ [None,
                  Some (NewDeletePool, [4, 0, 7, 8, 3, 0, 5, 0, 0])],
              free_bytes := 11\<rparr>, Inr \<lparr>m_pidl = Ptr 4 0\<rparr>)"
    by code_simp
  have c: "operator_plus (newdelete_alloc ITEMID_CHILD) ITEMID_CHILD (heap1\<lparr>nrvo := True\<rparr>)
        \<lparr>m_pidl = Ptr 0 0\<rparr> \<lparr>m_pidl = Ptr 1 0\<rparr>
     = (heap1\<lparr>blocks := blocks heap1 @ [Some (NewDeletePool, [4, 0, 7, 8, 3, 0, 5, 0, 0])],
              free_bytes := 11, nrvo := True\<rparr>, Inr \<lparr>m_pidl = Ptr 3 0\<rparr>)"
    by code_simp
  have d: "operator_plus (newdelete_alloc ITEMID_CHILD) ITEMID_CHILD (heap1\<lparr>free_bytes := 9\<rparr>)
        \<lparr>m_pidl = Ptr 0 0\<rparr> \<lparr>m_pidl = Ptr 1 0\<rparr>
     = (heap1\<lparr>blocks := blocks heap1 @ [None], free_bytes := 9\<rparr>, Inl bad_alloc)"
    by code_simp
  from combine_never_aliases[of "newdelete_alloc ITEMID_CHILD" ITEMID_CHILD heap1
      "Ptr 0 0" "Ptr 1 0" "\<lparr>m_pidl = Ptr 0 0\<rparr>" "\<lparr>m_pidl = Ptr 1 0\<rparr>"] a b c d
  show ?thesis by simp
qed

subsection \<open>Assignment and swap\<close>

lemma clone_error_heap:
  assumes "clone A h src = (h1, Inl e)"
  shows "h1 = h"
proof (cases src)
  case NULL
  with assms show ?thesis by (simp add: clone_def)
next
  case (Address a)
  with assms show ?thesis by (simp add: clone_Address)
next
  case (Ptr b off)
  show ?thesis
  proof (cases "size_pidl h (Ptr b off)")
    case (Inl e')
    with assms Ptr show ?thesis by (simp add: clone_def)
  next
    case (Inr n)
    then obtain bs where bb: "block_bytes h b = Some bs" by (rule size_pidl_PtrE)
    show ?thesis
    proof (cases "n \<le> free_bytes h")
      case True
      from clone_ok[OF Inr bb True, of A] assms Ptr show ?thesis by simp
    next
      case False
      then have "free_bytes h < n" by simp
      from clone_fail[OF Inr this, of A] assms Ptr show ?thesis by simp
    qed
  qed
qed

lemma assign_unfold:
  "assign A h this pidl =
     (case clone A h (m_pidl pidl) of
        (h1, Inl e) \<Rightarrow> (h1, this, Inl e)
      | (h1, Inr mem) \<Rightarrow>
          (case deallocate A h1 (m_pidl this) of
             (h3, Inl e) \<Rightarrow> (h3, this\<lparr>m_pidl := mem\<rparr>, Inl e)
           | (h3, Inr u) \<Rightarrow> (h3, this\<lparr>m_pidl := mem\<rparr>, Inr ())))"
  by (subst assign.simps)
     (simp add: construct_copy_def construct_raw_def swap_exchange destroy_def
        split: prod.splits sum.splits)

lemma assign_raw_unfold:
  "assign_raw A h this raw_pidl =
     (case clone A h raw_pidl of
        (h1, Inl e) \<Rightarrow> (h1, this, Inl e)
      | (h1, Inr mem) \<Rightarrow>
          (case deallocate A h1 (m_pidl this) of
             (h3, Inl e) \<Rightarrow> (h3, this\<lparr>m_pidl := mem\<rparr>, Inl e)
           | (h3, Inr u) \<Rightarrow> (h3, this\<lparr>m_pidl := mem\<rparr>, Inr ())))"
  by (simp add: assign_raw_def construct_raw_def swap_exchange destroy_def
        split: prod.splits sum.splits)

text \<open>
  Claim C8. Both assignments, from a wrapper and from a raw pointer, clone the source
  first. If the clone fails, the error goes to the caller and the heap and the
  destination are what they were; in particular \<^verbatim>\<open>std::bad_alloc\<close> when the allocator
  cannot supply the size of the source. If the clone succeeds, the destination gets the
  clone's pointer, which is null for a null source and a new block otherwise, and what
  the destination held before is deallocated.
\<close>

theorem assign_strong_guarantee:
  "(\<forall>h1 e. clone A h src = (h1, Inl e)
       \<longrightarrow> assign A h this \<lparr>m_pidl = src\<rparr> = (h, this, Inl e)
           \<and> assign_raw A h this src = (h, this, Inl e))
   \<and> (\<forall>b off n. src = Ptr b off \<and> size_pidl h src = Inr n \<and> free_bytes h < n
       \<longrightarrow> clone A h src = (h, Inl bad_alloc))
   \<and> (\<forall>h1 mem. clone A h src = (h1, Inr mem)
       \<longrightarrow> assign A h this \<lparr>m_pidl = src\<rparr>
             = (fst (deallocate A h1 (m_pidl this)), this\<lparr>m_pidl := mem\<rparr>,
                snd (deallocate A h1 (m_pidl this)))
           \<and> assign_raw A h this src
             = (fst (deallocate A h1 (m_pidl this)), this\<lparr>m_pidl := mem\<rparr>,
                snd (deallocate A h1 (m_pidl this)))
           \<and> (mem = NULL \<and> src = NULL \<and> h1 = h \<or> fresh_in h h1 mem))"
proof (intro conjI allI impI)
  fix h1 e assume c: "clone A h src = (h1, Inl e)"
  from clone_error_heap[OF c] c
  show "assign A h this \<lparr>m_pidl = src\<rparr> = (h, this, Inl e)"
    by (simp add: assign_unfold)
  from clone_error_heap[OF c] c
  show "assign_raw A h this src = (h, this, Inl e)"
    by (simp add: assign_raw_unfold)
next
  fix b off n assume "src = Ptr b off \<and> size_pidl h src = Inr n \<and> free_bytes h < n"
  then show "clone A h src = (h, Inl bad_alloc)"
    by (auto intro: clone_fail)
next
  fix h1 mem assume c: "clone A h src = (h1, Inr mem)"
  show "assign A h this \<lparr>m_pidl = src\<rparr>
             = (fst (deallocate A h1 (m_pidl this)), this\<lparr>m_pidl := mem\<rparr>,
                snd (deallocate A h1 (m_pidl this)))"
    using c by (simp add: assign_unfold split: prod.splits sum.splits)
  show "assign_raw A h this src
             = (fst (deallocate A h1 (m_pidl this)), this\<lparr>m_pidl := mem\<rparr>,
                snd (deallocate A h1 (m_pidl this)))"
    using c by (simp add: assign_raw_unfold split: prod.splits sum.splits)
  show "mem = NULL \<and> src = NULL \<and> h1 = h \<or> fresh_in h h1 mem"
  proof (cases src)
    case NULL
    with c show ?thesis by (simp add: clone_def)
  next
    case (Address a)
    with c show ?thesis by (simp add: clone_Address)
  next
    case (Ptr b off)
    with c clone_result[of A h b off h1 mem] show ?thesis by simp
  qed
qed

theorem assign_strong_guarantee_witness:
  "clone (cotaskmem_alloc ITEMIDLIST_RELATIVE) heap2 (Ptr 1 0) = (heap2, Inl bad_alloc)
   \<and> assign (cotaskmem_alloc ITEMIDLIST_RELATIVE) heap2 \<lparr>m_pidl = Ptr 0 0\<rparr> \<lparr>m_pidl = Ptr 1 0\<rparr>
       = (heap2, \<lparr>m_pidl = Ptr 0 0\<rparr>, Inl bad_alloc)
   \<and> assign_raw (cotaskmem_alloc ITEMIDLIST_RELATIVE) heap2 \<lparr>m_pidl = Ptr 0 0\<rparr> (Ptr 1 0)
       = (heap2, \<lparr>m_pidl = Ptr 0 0\<rparr>, Inl bad_alloc)
   \<and> assign (cotaskmem_alloc ITEMIDLIST_RELATIVE) (heap2\<lparr>free_bytes := 8\<rparr>)
         \<lparr>m_pidl = Ptr 0 0\<rparr> \<lparr>m_pidl = Ptr 1 0\<rparr>
       = (heap2\<lparr>blocks := [None, Some (CoTaskMemPool, [3, 0, 5, 0, 0]),
                             Some (CoTaskMemPool, [3, 0, 5, 0, 0])],
                 free_bytes := 9\<rparr>, \<lparr>m_pidl = Ptr 2 0\<rparr>, Inr ())"
proof -
  have s: "size_pidl heap2 (Ptr 1 0) = Inr 5" by code_simp
  have f: "free_bytes heap2 < 5" by (simp add: heap2_def)
  note t = assign_strong_guarantee[of "cotaskmem_alloc ITEMIDLIST_RELATIVE" heap2 "Ptr 1 0"
      "\<lparr>m_pidl = Ptr 0 0\<rparr>"]
  from t s f have c: "clone (cotaskmem_alloc ITEMIDLIST_RELATIVE) heap2 (Ptr 1 0)
      = (heap2, Inl bad_alloc)"
    by blast
  from t c have a: "assign (cotaskmem_alloc ITEMIDLIST_RELATIVE) heap2 \<lparr>m_pidl = Ptr 0 0\<rparr>
        \<lparr>m_pidl = Ptr 1 0\<rparr> = (heap2, \<lparr>m_pidl = Ptr 0 0\<rparr>, Inl bad_alloc)"
    and r: "assign_raw (cotaskmem_alloc ITEMIDLIST_RELATIVE) heap2 \<lparr>m_pidl = Ptr 0 0\<rparr> (Ptr 1 0)
       = (heap2, \<lparr>m_pidl = Ptr 0 0\<rparr>, Inl bad_alloc)"
    by blast+
  have c2: "clone (cotaskmem_alloc ITEMIDLIST_RELATIVE) (heap2\<lparr>free_bytes := 8\<rparr>) (Ptr 1 0)
      = (heap2\<lparr>blocks := blocks heap2 @ [Some (CoTaskMemPool, [3, 0, 5, 0, 0])],
               free_bytes := 3\<rparr>, Inr (Ptr 2 0))"
    by code_simp
  note t2 = assign_strong_guarantee[of "cotaskmem_alloc ITEMIDLIST_RELATIVE"
      "heap2\<lparr>free_bytes := 8\<rparr>" "Ptr 1 0" "\<lparr>m_pidl = Ptr 0 0\<rparr>"]
  from t2 c2 have "assign (cotaskmem_alloc ITEMIDLIST_RELATIVE) (heap2\<lparr>free_bytes := 8\<rparr>)
         \<lparr>m_pidl = Ptr 0 0\<rparr> \<lparr>m_pidl = Ptr 1 0\<rparr>
       = (fst (deallocate (cotaskmem_alloc ITEMIDLIST_RELATIVE)
                 (heap2\<lparr>blocks := blocks heap2 @ [Some (CoTaskMemPool, [3, 0, 5, 0, 0])],
                         free_bytes := 3\<rparr>) (m_pidl \<lparr>m_pidl = Ptr 0 0\<rparr>)),
          \<lparr>m_pidl = Ptr 0 0\<rparr>\<lparr>m_pidl := Ptr 2 0\<rparr>,
          snd (deallocate (cotaskmem_alloc ITEMIDLIST_RELATIVE)
                 (heap2\<lparr>blocks := blocks heap2 @ [Some (CoTaskMemPool, [3, 0, 5, 0, 0])],
                         free_bytes := 3\<rparr>) (m_pidl \<lparr>m_pidl = Ptr 0 0\<rparr>)))"
    by blast
  then have ok: "assign (cotaskmem_alloc ITEMIDLIST_RELATIVE) (heap2\<lparr>free_bytes := 8\<rparr>)
         \<lparr>m_pidl = Ptr 0 0\<rparr> \<lparr>m_pidl = Ptr 1 0\<rparr>
       = (heap2\<lparr>blocks := [None, Some (CoTaskMemPool, [3, 0, 5, 0, 0]),
                             Some (CoTaskMemPool, [3, 0, 5, 0, 0])],
                 free_bytes := 9\<rparr>, \<lparr>m_pidl = Ptr 2 0\<rparr>, Inr ())"
    by (simp add: deallocate_def heap2_def)
  from c a r ok show ?thesis by blast
qed

lemma construct_copy_NULL:
  "m_pidl x = NULL \<Longrightarrow> construct_copy A h x = (h, Inr \<lparr>m_pidl = NULL\<rparr>)"
  by (simp add: construct_copy_def construct_raw_def clone_NULL)

lemma swap_open_header:
  "swap_open (Suc n) True A h x y = Some (swap A h x y)"
  by (simp add: swap_exchange)

lemma assign_open_header:
  "assign_open (Suc (Suc n)) True A h x y = Some (assign A h x y)"
  by (subst assign.simps) (simp add: swap_exchange split: prod.splits sum.splits)

lemma open_unequal_never_completes:
  "swap_open n False A h x y \<noteq> Some (h', x', y', Inr ())
   \<and> assign_open n False A h x y \<noteq> Some (h', x', Inr ())"
proof (induction n arbitrary: h x y h' x' y')
  case 0
  show ?case by simp
next
  case (Suc n)
  have s: "swap_open (Suc n) False A h x y \<noteq> Some (h', x', y', Inr ())"
    using Suc.IH by (auto split: prod.splits sum.splits option.splits)
  have a: "assign_open (Suc n) False A h x y \<noteq> Some (h', x', Inr ())"
    using Suc.IH by (auto split: prod.splits sum.splits option.splits)
  from s a show ?case by simp
qed

lemma open_unequal_null_never_returns:
  "m_pidl x = NULL \<Longrightarrow> m_pidl y = NULL \<Longrightarrow>
   swap_open n False A h x y = None \<and> assign_open n False A h x y = None"
proof (induction n arbitrary: x y)
  case 0
  show ?case by simp
next
  case (Suc n)
  have "assign_open n False A h x y = None" using Suc by simp
  then have s: "swap_open (Suc n) False A h x y = None"
    using Suc.prems by (simp add: construct_copy_NULL)
  have "swap_open n False A h x \<lparr>m_pidl = NULL\<rparr> = None"
    using Suc.IH[of x "\<lparr>m_pidl = NULL\<rparr>"] Suc.prems by simp
  then have a: "assign_open (Suc n) False A h x y = None"
    using Suc.prems by (simp add: construct_copy_NULL)
  from s a show ?case by simp
qed

lemma open_unequal_bad_alloc:
  "swap_open (Suc (Suc (Suc n))) False (cotaskmem_alloc ITEMIDLIST_RELATIVE) heap3
      \<lparr>m_pidl = Ptr 0 0\<rparr> \<lparr>m_pidl = Ptr 1 0\<rparr>
   = Some (heap3\<lparr>blocks := blocks heap3 @ [None, None]\<rparr>,
           \<lparr>m_pidl = Ptr 0 0\<rparr>, \<lparr>m_pidl = Ptr 1 0\<rparr>, Inl bad_alloc)"
proof -
  define A where "A = cotaskmem_alloc ITEMIDLIST_RELATIVE"
  define x0 :: basic_pidl where "x0 = \<lparr>m_pidl = Ptr 0 0\<rparr>"
  define y0 :: basic_pidl where "y0 = \<lparr>m_pidl = Ptr 1 0\<rparr>"
  define temp :: basic_pidl where "temp = \<lparr>m_pidl = Ptr 2 0\<rparr>"
  define copy :: basic_pidl where "copy = \<lparr>m_pidl = Ptr 3 0\<rparr>"
  define ha where "ha = heap3\<lparr>blocks := blocks heap3 @ [Some (CoTaskMemPool, [4, 0, 7, 8, 0, 0])],
                               free_bytes := 6\<rparr>"
  define hb where "hb = heap3\<lparr>blocks := blocks heap3 @ [Some (CoTaskMemPool, [4, 0, 7, 8, 0, 0]),
                                 Some (CoTaskMemPool, [3, 0, 5, 0, 0])],
                               free_bytes := 1\<rparr>"
  define hc where "hc = heap3\<lparr>blocks := blocks heap3 @ [Some (CoTaskMemPool, [4, 0, 7, 8, 0, 0]),
                                 None],
                               free_bytes := 6\<rparr>"
  define hd where "hd = heap3\<lparr>blocks := blocks heap3 @ [None, None]\<rparr>"
  have c1: "construct_copy A heap3 x0 = (ha, Inr temp)"
    unfolding A_def ha_def x0_def temp_def by code_simp
  have c2: "construct_copy A ha y0 = (hb, Inr copy)"
    unfolding A_def ha_def hb_def y0_def copy_def by code_simp
  have c3: "construct_copy A hb x0 = (hb, Inl bad_alloc)"
    unfolding A_def hb_def x0_def by code_simp
  have d1: "fst (destroy A hb copy) = hc"
    unfolding A_def hb_def hc_def copy_def by code_simp
  have d2: "fst (destroy A hc temp) = hd"
    unfolding A_def hc_def hd_def temp_def by code_simp
  have s1: "swap_open (Suc n) False A hb x0 copy = Some (hb, x0, copy, Inl bad_alloc)"
    by (simp add: c3)
  have a1: "assign_open (Suc (Suc n)) False A ha x0 y0 = Some (hc, x0, Inl bad_alloc)"
    using s1 by (simp add: c2 d1)
  have "swap_open (Suc (Suc (Suc n))) False A heap3 x0 y0 = Some (hd, x0, y0, Inl bad_alloc)"
    using a1 by (simp add: c1 d2)
  then show ?thesis
    by (simp only: A_def x0_def y0_def hd_def)
qed

text \<open>
  Claim C7. Two allocators of the same scheme compare equal whatever their element
  types, and for them \<^verbatim>\<open>swap\<close> exchanges the two pointers, cannot fail, leaves the heap
  as it was, and applied twice restores both wrappers. For a class \<^verbatim>\<open>Alloc\<close> whose
  objects compare unequal, \<^verbatim>\<open>swap\<close> enters its copying branch and never completes
  it, at whatever depth of nested calls: the assignment in that branch calls \<^verbatim>\<open>swap\<close>,
  which enters the same branch again. With two null wrappers it never returns; with
  the two lists of \<open>heap3\<close> and 12 free bytes it ends in \<^verbatim>\<open>std::bad_alloc\<close>, both
  wrappers as they were.
\<close>

theorem swap_unequal_allocators:
  "alloc_eq A A = Some True
   \<and> alloc_eq (newdelete_alloc T) (newdelete_alloc U) = Some True
   \<and> alloc_eq (cotaskmem_alloc T) (cotaskmem_alloc U) = Some True
   \<and> swap_open (Suc n) True A h x y = Some (swap A h x y)
   \<and> swap A h x y = (h, x\<lparr>m_pidl := m_pidl y\<rparr>, y\<lparr>m_pidl := m_pidl x\<rparr>, Inr ())
   \<and> (case swap A h x y of (h1, x1, y1, r1) \<Rightarrow> swap A h1 x1 y1) = (h, x, y, Inr ())
   \<and> swap_open n False A h x y \<noteq> Some (h', x', y', Inr ())
   \<and> swap_open n False A h \<lparr>m_pidl = NULL\<rparr> \<lparr>m_pidl = NULL\<rparr> = None
   \<and> swap_open (Suc (Suc (Suc n))) False (cotaskmem_alloc ITEMIDLIST_RELATIVE) heap3
          \<lparr>m_pidl = Ptr 0 0\<rparr> \<lparr>m_pidl = Ptr 1 0\<rparr>
       = Some (heap3\<lparr>blocks := blocks heap3 @ [None, None]\<rparr>,
               \<lparr>m_pidl = Ptr 0 0\<rparr>, \<lparr>m_pidl = Ptr 1 0\<rparr>, Inl bad_alloc)"
proof -
  have e: "swap A h x y = (h, x\<lparr>m_pidl := m_pidl y\<rparr>, y\<lparr>m_pidl := m_pidl x\<rparr>, Inr ())"
    by (rule swap_exchange)
  have t: "(case swap A h x y of (h1, x1, y1, r1) \<Rightarrow> swap A h1 x1 y1) = (h, x, y, Inr ())"
    by (simp add: swap_exchange)
  have u: "swap_open n False A h x y \<noteq> Some (h', x', y', Inr ())"
    using open_unequal_never_completes[of n A h x y h' x' y'] by simp
  have z: "swap_open n False A h \<lparr>m_pidl = NULL\<rparr> \<lparr>m_pidl = NULL\<rparr> = None"
    using open_unequal_null_never_returns[of "\<lparr>m_pidl = NULL\<rparr>" "\<lparr>m_pidl = NULL\<rparr>" n A h]
    by simp
  show ?thesis
    using e t u z open_unequal_bad_alloc[of n] swap_open_header[of n A h x y]
    by (simp add: alloc_eq_same)
qed

subsection \<open>Types of the operands\<close>

text \<open>
  Claim C4, amended. The return type of \<^verbatim>\<open>combine\<close> is \<^verbatim>\<open>traits<T>::combine_type\<close> of the
  left-hand type \<open>T\<close>, for every appendable right-hand type: \<^verbatim>\<open>ITEMIDLIST_RELATIVE\<close> for
  a child or relative left-hand operand, \<^verbatim>\<open>ITEMIDLIST_ABSOLUTE\<close> for an absolute one. Two
  relative operands give a relative list; two child operands give a relative list too.
\<close>

theorem combine_result_variant:
  "combine_return_type T U = (if is_appendable U then Some (combine_type T) else None)
   \<and> combine_return_type ITEMID_CHILD ITEMID_CHILD = Some ITEMIDLIST_RELATIVE
   \<and> combine_return_type ITEMID_CHILD ITEMIDLIST_RELATIVE = Some ITEMIDLIST_RELATIVE
   \<and> combine_return_type ITEMIDLIST_RELATIVE ITEMID_CHILD = Some ITEMIDLIST_RELATIVE
   \<and> combine_return_type ITEMIDLIST_RELATIVE ITEMIDLIST_RELATIVE = Some ITEMIDLIST_RELATIVE
   \<and> combine_return_type ITEMIDLIST_ABSOLUTE ITEMID_CHILD = Some ITEMIDLIST_ABSOLUTE
   \<and> combine_return_type ITEMIDLIST_ABSOLUTE ITEMIDLIST_RELATIVE = Some ITEMIDLIST_ABSOLUTE
   \<and> join_type T = combine_type T"
  by (simp add: combine_return_type_def join_type_def)

theorem combine_result_variant_counterexample:
  "combine_return_type ITEMIDLIST_ABSOLUTE ITEMID_CHILD = Some ITEMIDLIST_ABSOLUTE
   \<and> combine_return_type ITEMIDLIST_ABSOLUTE ITEMID_CHILD \<noteq> Some ITEMIDLIST_RELATIVE
   \<and> combine_return_type ITEMID_CHILD ITEMID_CHILD = Some ITEMIDLIST_RELATIVE
   \<and> combine_return_type ITEMID_CHILD ITEMID_CHILD \<noteq> Some ITEMID_CHILD"
  by (simp add: combine_return_type_def)

text \<open>
  Claim C5. \<^verbatim>\<open>traits<ITEMIDLIST_ABSOLUTE>::is_appendable\<close> is false and the other two are
  true; \<^verbatim>\<open>combine\<close> and \<^verbatim>\<open>operator+\<close> have an instance exactly when the right-hand type
  is appendable. With an absolute right-hand type there is no instance, hence nothing
  that could run or allocate; with a child or relative one the instance is the body.
\<close>

theorem absolute_rhs_rejected:
  "is_appendable ITEMIDLIST_ABSOLUTE = False
   \<and> is_appendable ITEMID_CHILD = True
   \<and> is_appendable ITEMIDLIST_RELATIVE = True
   \<and> (combine_template A T U \<noteq> None) = is_appendable U
   \<and> (operator_plus_template A T U \<noteq> None) = is_appendable U
   \<and> combine_template A T ITEMIDLIST_ABSOLUTE = None
   \<and> operator_plus_template A T ITEMIDLIST_ABSOLUTE = None
   \<and> combine_return_type T ITEMIDLIST_ABSOLUTE = None
   \<and> combine_template A T ITEMID_CHILD = Some (combine A T)
   \<and> combine_template A T ITEMIDLIST_RELATIVE = Some (combine A T)
   \<and> operator_plus_template A T ITEMID_CHILD = Some (operator_plus A T)
   \<and> operator_plus_template A T ITEMIDLIST_RELATIVE = Some (operator_plus A T)"
  by (simp add: combine_template_def operator_plus_template_def combine_return_type_def)

subsection \<open>The assignment of StorageMedium\<close>

text \<open>
  Claim C9. The copy assignment of \<^verbatim>\<open>StorageMedium\<close> puts the state of its argument into
  the object and the object's old state into the argument, and it returns nothing: its
  body ends without a \<^verbatim>\<open>return\<close>.
\<close>

theorem StorageMedium_assign_returns_nothing:
  "StorageMedium_assign this medium =
     (this\<lparr>m_medium := m_medium medium\<rparr>, medium\<lparr>m_medium := m_medium this\<rparr>, None)
   \<and> m_medium (fst (StorageMedium_assign this medium)) = m_medium medium
   \<and> snd (snd (StorageMedium_assign this medium)) = None"
  by (simp add: StorageMedium_assign_def)

end
